theory Spec2Isabelle
  imports Complex_Main
begin

section \<open>Text primitives of the Python runtime\<close>

text \<open>
  The analysis core of \<^verbatim>\<open>Academic_Dishonesty_Check_v1-3.py\<close> works on Python strings.
  A text is modelled as a \<^typ>\<open>string\<close> whose characters are the code points 0..255; a Python
  float is modelled as a real number, so a quotient of two word counts is the exact
  quotient. \<^verbatim>\<open>str.isspace\<close>, \<^verbatim>\<open>str.lower\<close> and \<^verbatim>\<open>str.isupper\<close> are written out for that
  range of code points.

  Floating-point division rounds correctly and monotonically, and for counts below 2 to
  the power 46 a quotient of two counts and a constant with two decimals round to the
  same float only when they are equal. So the comparisons of a quotient of counts with a
  decimal constant (\<^verbatim>\<open>similarity >= 0.85\<close>, \<^verbatim>\<open>change_ratio >= 0.3\<close>) have the same outcome
  on floats and on the exact quotients. The score of \<^verbatim>\<open>check_paragraph_uniformity\<close> is
  different: it goes through sums of floats and a square root, which round. The float
  that this arithmetic returns is therefore a parameter of the model, and the literal it
  is compared with is the double that the literal denotes.
\<close>

datatype py_error = IndexError | KeyError | ZeroDivisionError | TypeError | AttributeError

definition py_isspace :: "char \<Rightarrow> bool" where
  "py_isspace c =
     (let n = (of_char c :: nat)
      in (9 \<le> n \<and> n \<le> 13) \<or> (28 \<le> n \<and> n \<le> 32) \<or> n = 133 \<or> n = 160)"

definition py_isupper :: "char \<Rightarrow> bool" where
  "py_isupper c =
     (let n = (of_char c :: nat)
      in (65 \<le> n \<and> n \<le> 90) \<or> (192 \<le> n \<and> n \<le> 222 \<and> n \<noteq> 215))"

definition lower_char :: "char \<Rightarrow> char" where
  "lower_char c = (if py_isupper c then char_of ((of_char c :: nat) + 32) else c)"

text \<open>\<^verbatim>\<open>s.lower()\<close>\<close>

definition lower :: "string \<Rightarrow> string" where
  "lower s = map lower_char s"

text \<open>\<^verbatim>\<open>s.strip()\<close>: leading and trailing white space removed.\<close>

definition strip :: "string \<Rightarrow> string" where
  "strip s = rev (dropWhile py_isspace (rev (dropWhile py_isspace s)))"

text \<open>
  \<^verbatim>\<open>s.split()\<close> without a separator: the maximal runs of characters that are not white
  space, in order; never an empty word. \<open>w\<close> is the word being read.
\<close>

fun split_aux :: "string \<Rightarrow> string \<Rightarrow> string list" where
  "split_aux w [] = (if w = [] then [] else [w])"
| "split_aux w (c # cs) =
     (if py_isspace c then (if w = [] then split_aux [] cs else w # split_aux [] cs)
      else split_aux (w @ [c]) cs)"

definition split :: "string \<Rightarrow> string list" where
  "split s = split_aux [] s"

text \<open>
  \<^verbatim>\<open>re.split(r'[.!?]+', s)\<close>: the pieces between maximal runs of the three marks. A run at
  the start or at the end of the text leaves an empty piece there, and the empty text
  is one empty piece. \<open>in_run\<close> says that the character before was a mark.
\<close>

definition is_sentence_mark :: "char \<Rightarrow> bool" where
  "is_sentence_mark c = (c = CHR ''.'' \<or> c = CHR ''!'' \<or> c = CHR ''?'')"

fun re_split_aux :: "bool \<Rightarrow> string \<Rightarrow> string \<Rightarrow> string list" where
  "re_split_aux in_run cur [] = [cur]"
| "re_split_aux in_run cur (c # cs) =
     (if is_sentence_mark c
      then (if in_run then re_split_aux True cur cs else cur # re_split_aux True [] cs)
      else re_split_aux False (cur @ [c]) cs)"

definition re_split_sentences :: "string \<Rightarrow> string list" where
  "re_split_sentences s = re_split_aux False [] s"

text \<open>
  \<^verbatim>\<open>s.split('\n\n')\<close>: the pieces between the occurrences of two line feeds, found from
  left to right without overlap; the empty text is one empty piece.
\<close>

fun split_blank_aux :: "string \<Rightarrow> string \<Rightarrow> string list" where
  "split_blank_aux cur [] = [cur]"
| "split_blank_aux cur [c] = [cur @ [c]]"
| "split_blank_aux cur (c # d # cs) =
     (if c = CHR 0x0A \<and> d = CHR 0x0A then cur # split_blank_aux [] cs
      else split_blank_aux (cur @ [c]) (d # cs))"

definition split_blank_lines :: "string \<Rightarrow> string list" where
  "split_blank_lines s = split_blank_aux [] s"

section \<open>Word count and similarity\<close>

text \<open>\<^verbatim>\<open>count_words\<close> (line 650). The text is never \<^verbatim>\<open>None\<close> where it is called.\<close>

definition count_words :: "string \<Rightarrow> nat" where
  "count_words text = (if text = [] then 0 else length (split text))"

text \<open>\<^verbatim>\<open>calculate_text_similarity\<close> (lines 656-676).\<close>

definition calculate_text_similarity :: "string \<Rightarrow> string \<Rightarrow> real" where
  "calculate_text_similarity text1 text2 =
     (if text1 = [] \<or> text2 = [] then 0
      else let t1 = strip (lower text1); t2 = strip (lower text2) in
        if t1 = t2 then 1
        else let words1 = set (split t1); words2 = set (split t2) in
          if words1 = {} \<or> words2 = {} then 0
          else let intersection = words1 \<inter> words2; union = words1 \<union> words2 in
            if union \<noteq> {} then real (card intersection) / real (card union) else 0)"

section \<open>Draft comparison\<close>

text \<open>
  \<^verbatim>\<open>compare_drafts\<close> (lines 1808-1923) returns a dictionary with the flags, the revision
  score and a dictionary of details; the record keeps the flags, the score and the three
  details the score is computed from. A flag is a fixed message of the source, one
  constructor per message.
\<close>

datatype draft_flag =
    No_revision_occurred
  | Minimal_revision
  | Few_sentence_changes
  | Possible_regeneration
  | Final_significantly_shorter
  | Insufficient_revision

record draft_comparison =
  flags :: "draft_flag list"
  revision_score :: nat
  overall_similarity :: "real option"
  sentence_change_ratio :: "real option"
  new_vocabulary_words :: "nat option"

text \<open>
  The set of the trimmed, lower-cased, non-empty sentences of a draft (lines 1843-1844).
\<close>

definition draft_sentences :: "string \<Rightarrow> string set" where
  "draft_sentences draft =
     set (map (\<lambda>s. lower (strip s)) (filter (\<lambda>s. strip s \<noteq> []) (re_split_sentences draft)))"

text \<open>
  \<^verbatim>\<open>[p.strip() for p in text.split('\n\n') if p.strip()]\<close>, as used by
  \<^verbatim>\<open>compare_drafts\<close> and by \<^verbatim>\<open>check_paragraph_uniformity\<close>.
\<close>

definition paragraphs :: "string \<Rightarrow> string list" where
  "paragraphs text = map strip (filter (\<lambda>p. strip p \<noteq> []) (split_blank_lines text))"

text \<open>
  Lines 1896-1905. Python divides by \<^verbatim>\<open>len(paras1)\<close>; a division by zero raises, and the
  model returns the error there.
\<close>

definition regeneration_flags :: "real \<Rightarrow> string list \<Rightarrow> string list \<Rightarrow> py_error + draft_flag list" where
  "regeneration_flags similarity paras1 paras2 =
     (if similarity < 5 / 10 \<and> length paras1 = length paras2
      then if length paras1 = 0 then Inl ZeroDivisionError
        else let para_structure_sim =
                   real (length (filter (\<lambda>(p1, p2). \<bar>int (length (split p1)) - int (length (split p2))\<bar> < 10)
                                   (zip paras1 paras2)))
                   / real (length paras1)
             in Inr (if para_structure_sim > 7 / 10 then [Possible_regeneration] else [])
      else Inr [])"

definition compare_drafts :: "string \<Rightarrow> string \<Rightarrow> py_error + draft_comparison" where
  "compare_drafts draft1 draft2 =
     (if draft1 = [] \<or> draft2 = []
      then Inr \<lparr>flags = [], revision_score = 0, overall_similarity = None,
                sentence_change_ratio = None, new_vocabulary_words = None\<rparr>
      else
        let words1 = split draft1;
            words2 = split draft2;
            similarity = calculate_text_similarity draft1 draft2
        in if similarity \<ge> 98 / 100
           then Inr \<lparr>flags = [No_revision_occurred], revision_score = 0,
                     overall_similarity = Some similarity,
                     sentence_change_ratio = None, new_vocabulary_words = None\<rparr>
           else
             let flags1 = (if similarity \<ge> 95 / 100 then [Minimal_revision] else []);
                 sentences1 = draft_sentences draft1;
                 sentences2 = draft_sentences draft2;
                 added = sentences2 - sentences1;
                 removed = sentences1 - sentences2;
                 total_sentences = card (sentences1 \<union> sentences2);
                 change_ratio =
                   (if total_sentences > 0
                    then real (card added + card removed) / real total_sentences else 0);
                 score1 = (if change_ratio \<ge> 3 / 10 then 30
                           else if change_ratio \<ge> 15 / 100 then 20
                           else if change_ratio \<ge> 5 / 100 then 10 else (0::nat));
                 flags2 = flags1 @ (if change_ratio \<ge> 5 / 100 then [] else [Few_sentence_changes]);
                 paras1 = paragraphs draft1;
                 paras2 = paragraphs draft2;
                 score2 = score1 + (if length paras1 \<noteq> length paras2 then 10 else 0);
                 new_words = set words2 - set words1;
                 unique_new_words = card (Set.filter (\<lambda>w. length w > 4) new_words);
                 score3 = score2 + (if unique_new_words \<ge> 20 then 20
                                    else if unique_new_words \<ge> 10 then 10 else 0)
             in case regeneration_flags similarity paras1 paras2 of
                  Inl e \<Rightarrow> Inl e
                | Inr regen \<Rightarrow>
                    let flags3 = flags2 @ regen;
                        flags4 = flags3 @
                          (if real (length words2) < real (length words1) * (7 / 10)
                           then [Final_significantly_shorter] else []);
                        final_score = min score3 100;
                        flags5 = flags4 @ (if final_score < 20 then [Insufficient_revision] else [])
                    in Inr \<lparr>flags = flags5, revision_score = final_score,
                             overall_similarity = Some similarity,
                             sentence_change_ratio = Some change_ratio,
                             new_vocabulary_words = Some unique_new_words\<rparr>)"

section \<open>Assignment profiles\<close>

text \<open>
  \<^verbatim>\<open>ASSIGNMENT_PROFILES\<close> (lines 87-416). The analysis reads three entries of a profile:
  \<^verbatim>\<open>checks_enabled\<close>, \<^verbatim>\<open>thresholds\<close> and \<^verbatim>\<open>invert_checks\<close>; a profile without the last one
  has the empty dictionary there, which is what \<^verbatim>\<open>profile.get("invert_checks", {})\<close>
  gives. The names, descriptions and instructor notes are only printed.
\<close>

record profile =
  checks_enabled :: "(string \<times> bool) list"
  thresholds :: "(string \<times> nat) list"
  invert_checks :: "(string \<times> bool) list"

definition notes_brainstorm :: profile where
  "notes_brainstorm = \<lparr>
     checks_enabled =
       [(''ai_transitions'', False), (''hedge_phrases'', False), (''inflated_vocabulary'', True),
        (''generic_phrases'', False), (''balance_markers'', False), (''passive_voice'', False),
        (''personal_markers'', False), (''emotional_markers'', False),
        (''complete_sentences'', True), (''paragraph_structure'', True), (''copy_paste'', True),
        (''cross_submission'', True), (''essay_organization'', True),
        (''headings_structure'', True)],
     thresholds =
       [(''min_word_count'', 20), (''ai_transition_count'', 999),
        (''passive_voice_percent'', 100), (''complete_sentence_percent'', 50),
        (''paragraph_count_suspicious'', 3)],
     invert_checks = [(''complete_sentences'', True), (''paragraph_structure'', True)]\<rparr>"

definition rough_draft :: profile where
  "rough_draft = \<lparr>
     checks_enabled =
       [(''ai_transitions'', True), (''hedge_phrases'', False), (''inflated_vocabulary'', True),
        (''generic_phrases'', True), (''balance_markers'', False), (''passive_voice'', False),
        (''personal_markers'', False), (''emotional_markers'', False),
        (''complete_sentences'', False), (''copy_paste'', True), (''cross_submission'', True)],
     thresholds =
       [(''min_word_count'', 30), (''ai_transition_count'', 5),
        (''passive_voice_percent'', 60), (''complete_sentence_percent'', 90)],
     invert_checks = []\<rparr>"

definition personal_reflection :: profile where
  "personal_reflection = \<lparr>
     checks_enabled =
       [(''ai_transitions'', True), (''hedge_phrases'', True), (''inflated_vocabulary'', True),
        (''generic_phrases'', True), (''balance_markers'', True), (''passive_voice'', True),
        (''personal_markers'', True), (''emotional_markers'', True),
        (''complete_sentences'', True), (''copy_paste'', True), (''cross_submission'', True)],
     thresholds =
       [(''min_word_count'', 50), (''ai_transition_count'', 3),
        (''passive_voice_percent'', 40), (''complete_sentence_percent'', 85)],
     invert_checks = []\<rparr>"

definition discussion_post :: profile where
  "discussion_post = \<lparr>
     checks_enabled =
       [(''ai_transitions'', True), (''hedge_phrases'', True), (''inflated_vocabulary'', True),
        (''generic_phrases'', True), (''balance_markers'', True), (''passive_voice'', False),
        (''personal_markers'', True), (''emotional_markers'', True),
        (''complete_sentences'', False), (''copy_paste'', True), (''cross_submission'', True)],
     thresholds =
       [(''min_word_count'', 30), (''ai_transition_count'', 2),
        (''passive_voice_percent'', 50), (''complete_sentence_percent'', 90)],
     invert_checks = []\<rparr>"

definition analytical_essay :: profile where
  "analytical_essay = \<lparr>
     checks_enabled =
       [(''ai_transitions'', True), (''hedge_phrases'', True), (''inflated_vocabulary'', True),
        (''generic_phrases'', True), (''balance_markers'', True), (''passive_voice'', True),
        (''personal_markers'', False), (''emotional_markers'', False),
        (''complete_sentences'', True), (''copy_paste'', True), (''cross_submission'', True)],
     thresholds =
       [(''min_word_count'', 50), (''ai_transition_count'', 3),
        (''passive_voice_percent'', 45), (''complete_sentence_percent'', 80)],
     invert_checks = []\<rparr>"

definition research_paper :: profile where
  "research_paper = \<lparr>
     checks_enabled =
       [(''ai_transitions'', True), (''hedge_phrases'', True), (''inflated_vocabulary'', True),
        (''generic_phrases'', True), (''balance_markers'', True), (''passive_voice'', True),
        (''personal_markers'', False), (''emotional_markers'', False),
        (''complete_sentences'', True), (''copy_paste'', True), (''cross_submission'', True)],
     thresholds =
       [(''min_word_count'', 100), (''ai_transition_count'', 4),
        (''passive_voice_percent'', 55), (''complete_sentence_percent'', 75)],
     invert_checks = []\<rparr>"

definition creative_writing :: profile where
  "creative_writing = \<lparr>
     checks_enabled =
       [(''ai_transitions'', False), (''hedge_phrases'', False), (''inflated_vocabulary'', True),
        (''generic_phrases'', True), (''balance_markers'', False), (''passive_voice'', False),
        (''personal_markers'', False), (''emotional_markers'', True),
        (''complete_sentences'', False), (''copy_paste'', True), (''cross_submission'', True)],
     thresholds =
       [(''min_word_count'', 50), (''ai_transition_count'', 999),
        (''passive_voice_percent'', 100), (''complete_sentence_percent'', 100)],
     invert_checks = []\<rparr>"

definition standard :: profile where
  "standard = \<lparr>
     checks_enabled =
       [(''ai_transitions'', True), (''hedge_phrases'', True), (''inflated_vocabulary'', True),
        (''generic_phrases'', True), (''balance_markers'', True), (''passive_voice'', True),
        (''personal_markers'', True), (''emotional_markers'', True),
        (''complete_sentences'', True), (''copy_paste'', True), (''cross_submission'', True)],
     thresholds =
       [(''min_word_count'', 50), (''ai_transition_count'', 3),
        (''passive_voice_percent'', 45), (''complete_sentence_percent'', 80)],
     invert_checks = []\<rparr>"

definition ASSIGNMENT_PROFILES :: "(string \<times> profile) list" where
  "ASSIGNMENT_PROFILES =
     [(''notes_brainstorm'', notes_brainstorm), (''rough_draft'', rough_draft),
      (''personal_reflection'', personal_reflection), (''discussion_post'', discussion_post),
      (''analytical_essay'', analytical_essay), (''research_paper'', research_paper),
      (''creative_writing'', creative_writing), (''standard'', standard)]"

text \<open>\<^verbatim>\<open>get_profile\<close> (line 421): an unknown key gives the standard profile.\<close>

definition get_profile :: "string \<Rightarrow> profile" where
  "get_profile profile_key =
     (case map_of ASSIGNMENT_PROFILES profile_key of Some p \<Rightarrow> p | None \<Rightarrow> standard)"

text \<open>
  The global \<^verbatim>\<open>CURRENT_PROFILE\<close> is \<^verbatim>\<open>None\<close> or a profile key; every function that reads
  it takes it as its first argument. \<^verbatim>\<open>is_check_enabled\<close> (line 425) and
  \<^verbatim>\<open>get_threshold\<close> (line 432) test it with \<^verbatim>\<open>is None\<close>.
\<close>

definition is_check_enabled :: "string option \<Rightarrow> string \<Rightarrow> bool" where
  "is_check_enabled current_profile check_name =
     (case current_profile of
        None \<Rightarrow> True
      | Some key \<Rightarrow>
          (case map_of (checks_enabled (get_profile key)) check_name of
             Some b \<Rightarrow> b | None \<Rightarrow> True))"

definition default_thresholds :: "(string \<times> nat) list" where
  "default_thresholds =
     [(''min_word_count'', 50), (''ai_transition_count'', 3),
      (''passive_voice_percent'', 45), (''complete_sentence_percent'', 80)]"

definition get_threshold :: "string option \<Rightarrow> string \<Rightarrow> nat" where
  "get_threshold current_profile threshold_name =
     (case current_profile of
        None \<Rightarrow> (case map_of default_thresholds threshold_name of Some n \<Rightarrow> n | None \<Rightarrow> 50)
      | Some key \<Rightarrow>
          (case map_of (thresholds (get_profile key)) threshold_name of
             Some n \<Rightarrow> n | None \<Rightarrow> 50))"

text \<open>
  \<^verbatim>\<open>analyze_submission\<close> reads the inversion table with
  \<^verbatim>\<open>get_profile(CURRENT_PROFILE) if CURRENT_PROFILE else {}\<close> (lines 2021-2024 and
  2045-2048): the test is the truth value of the key, so \<^verbatim>\<open>None\<close> and the empty key
  both give the empty table.
\<close>

definition is_inverted :: "string option \<Rightarrow> string \<Rightarrow> bool" where
  "is_inverted current_profile check_name =
     (case current_profile of
        None \<Rightarrow> False
      | Some key \<Rightarrow>
          if key = [] then False
          else (case map_of (invert_checks (get_profile key)) check_name of
                  Some b \<Rightarrow> b | None \<Rightarrow> False))"

section \<open>Heuristic checks written out in full\<close>

text \<open>
  \<^verbatim>\<open>check_paragraph_uniformity\<close> (lines 874-897). The two early returns and the list
  \<^verbatim>\<open>lengths\<close> of the paragraphs' word counts are written out. Lines 885-897 then compute
  in floating point, from \<^verbatim>\<open>lengths\<close> alone, one minus the coefficient of variation (or 0):
  an average, a variance, \<^verbatim>\<open>variance ** 0.5\<close> and a quotient, each rounded. \<open>float_score\<close>
  stands for this computation: the value, as a real number, of the float that these
  lines return on a list of word counts.
\<close>

definition check_paragraph_uniformity :: "(nat list \<Rightarrow> real) \<Rightarrow> string \<Rightarrow> real" where
  "check_paragraph_uniformity float_score text =
     (if text = [] then 0
      else let paras = paragraphs text in
        if length paras < 3 then 0
        else let lengths = map (\<lambda>p. length (split p)) paras
             in float_score lengths)"

text \<open>
  The float literal \<^verbatim>\<open>0.8\<close> of line 2002 is the double nearest to 0.8, which is
  \<open>3602879701896397 / 2\<^sup>5\<^sup>2\<close>, slightly above 0.8. A float exceeds the literal exactly when
  its value exceeds this number.
\<close>

definition float_0_8 :: real where
  "float_0_8 = 3602879701896397 / 4503599627370496"

text \<open>
  \<^verbatim>\<open>check_repetitive_reasoning\<close> (lines 899-920). The two nested \<^verbatim>\<open>for\<close> loops over
  \<^verbatim>\<open>range(len(sentences) - 1)\<close> and \<^verbatim>\<open>range(i + 1, len(sentences))\<close> are two folds that
  carry the counter \<^verbatim>\<open>similar_pairs\<close>.
\<close>

definition long_sentences :: "string \<Rightarrow> string list" where
  "long_sentences text =
     map (\<lambda>s. lower (strip s)) (filter (\<lambda>s. length (strip s) > 20) (re_split_sentences text))"

definition count_similar_pairs :: "string list \<Rightarrow> nat" where
  "count_similar_pairs sentences =
     fold (\<lambda>i similar_pairs.
             fold (\<lambda>j similar_pairs.
                     if calculate_text_similarity (sentences ! i) (sentences ! j) > 7 / 10
                     then similar_pairs + 1 else similar_pairs)
                  [i + 1 ..< length sentences] similar_pairs)
          [0 ..< length sentences - 1] 0"

definition check_repetitive_reasoning :: "string \<Rightarrow> bool" where
  "check_repetitive_reasoning text =
     (if text = [] then False
      else let sentences = long_sentences text in
        if length sentences < 5 then False
        else let similar_pairs = count_similar_pairs sentences;
                 total_pairs = real (length sentences * (length sentences - 1)) / 2
             in if total_pairs > 0 then real similar_pairs / total_pairs > 2 / 10 else False)"

text \<open>
  \<^verbatim>\<open>check_sentence_completeness\<close> (lines 943-960). \<^verbatim>\<open>sentence[0]\<close> raises on an empty
  sentence; it is read only after \<^verbatim>\<open>len(words) >= 8\<close> has held.
\<close>

fun count_complete :: "string list \<Rightarrow> py_error + nat" where
  "count_complete [] = Inr 0"
| "count_complete (sentence # rest) =
     (if length (split sentence) \<ge> 8
      then (case sentence of
              [] \<Rightarrow> Inl IndexError
            | c # _ \<Rightarrow>
                (case count_complete rest of
                   Inl e \<Rightarrow> Inl e
                 | Inr complete_count \<Rightarrow>
                     Inr (if py_isupper c then complete_count + 1 else complete_count)))
      else count_complete rest)"

definition check_sentence_completeness :: "string \<Rightarrow> py_error + real" where
  "check_sentence_completeness text =
     (if text = [] then Inr 0
      else let sentences = map strip (filter (\<lambda>s. strip s \<noteq> []) (re_split_sentences text)) in
        if sentences = [] then Inr 0
        else (case count_complete sentences of
                Inl e \<Rightarrow> Inl e
              | Inr complete_count \<Rightarrow> Inr (real complete_count / real (length sentences))))"

section \<open>Bibliographic markers\<close>

text \<open>
  \<^verbatim>\<open>check_bibliographic_markers\<close> (lines 1461-1573) finds its material with regular
  expressions and, on request, asks two web services about the citations. What the
  \<^verbatim>\<open>re\<close> library and the services return on a text is data of the model:
  the number of vague citation phrases, the (author, year) pairs of the two APA patterns
  in the order \<^verbatim>\<open>re.findall\<close> gives them, whether a reference section was found, and the
  citations the services did not find. Everything the function computes from them is
  written out.
\<close>

record citation_matches =
  vague_count :: nat
  apa_parenthetical :: "(string \<times> string) list"
  apa_narrative :: "(string \<times> string) list"
  has_references_section :: bool
  not_found :: "(string \<times> string) list"

datatype bib_flag =
    Vague_citation_language nat
  | Round_years nat nat
  | Common_author_surnames nat
  | Clustered_in_year "string option" nat
  | No_references_section
  | Not_verified_header nat
  | Not_verified_item string string
  | Not_verified_more nat

text \<open>\<^verbatim>\<open>author.split()[0].replace(",", "")\<close>; the index raises when there is no word.\<close>

definition first_surname :: "string \<Rightarrow> py_error + string" where
  "first_surname author =
     (case split author of
        [] \<Rightarrow> Inl IndexError
      | w # _ \<Rightarrow> Inr (filter (\<lambda>c. c \<noteq> CHR '','') w))"

fun surname_citations :: "(string \<times> string) list \<Rightarrow> py_error + (string \<times> string) list" where
  "surname_citations [] = Inr []"
| "surname_citations ((author, year) # rest) =
     (case first_surname author of
        Inl e \<Rightarrow> Inl e
      | Inr surname \<Rightarrow>
          (case surname_citations rest of
             Inl e \<Rightarrow> Inl e
           | Inr cs \<Rightarrow> Inr ((surname, year) # cs)))"

text \<open>
  \<^verbatim>\<open>Counter(years).most_common(1)[0]\<close>: the keys of a counter are kept in the order of
  their first occurrence, and among the keys with the largest count the first one is
  returned.
\<close>

fun counter_keys :: "'a list \<Rightarrow> 'a list" where
  "counter_keys [] = []"
| "counter_keys (x # xs) = x # filter (\<lambda>y. y \<noteq> x) (counter_keys xs)"

definition most_common :: "'a list \<Rightarrow> ('a \<times> nat) option" where
  "most_common xs =
     (case counter_keys xs of
        [] \<Rightarrow> None
      | k # ks \<Rightarrow>
          Some (fold (\<lambda>k' (best, n). if count_list xs k' > n then (k', count_list xs k') else (best, n))
                     ks (k, count_list xs k)))"

definition common_names :: "string list" where
  "common_names =
     [''smith'', ''johnson'', ''williams'', ''brown'', ''jones'', ''davis'', ''miller'']"

text \<open>Lines 1501-1522: the three patterns looked for in the list of citations.\<close>

definition citation_pattern_flags :: "(string \<times> string) list \<Rightarrow> bib_flag list" where
  "citation_pattern_flags all_citations =
     (if all_citations = [] then []
      else
        let round_years = length (filter (\<lambda>(_, year). year \<noteq> [] \<and> last year = CHR ''0'') all_citations);
            round_flags =
              (if length all_citations \<ge> 3
                  \<and> real round_years / real (length all_citations) > 5 / 10
               then [Round_years round_years (length all_citations)] else []);
            generic_authors = length (filter (\<lambda>(author, _). lower author \<in> set common_names) all_citations);
            generic_flags =
              (if generic_authors \<ge> 2 then [Common_author_surnames generic_authors] else []);
            years = map snd all_citations;
            (most_common_year, count) =
              (case most_common years of Some (y, n) \<Rightarrow> (Some y, n) | None \<Rightarrow> (None, 0));
            cluster_flags =
              (if count \<ge> 3 \<and> real count / real (length all_citations) > 4 / 10
               then [Clustered_in_year most_common_year count] else [])
        in round_flags @ generic_flags @ cluster_flags)"

text \<open>Lines 1543-1556: the flags of the verification, from the citations not found.\<close>

definition verification_flags :: "(string \<times> string) list \<Rightarrow> bib_flag list" where
  "verification_flags not_found_list =
     (if length not_found_list > 0
      then Not_verified_header (length not_found_list)
           # map (\<lambda>(author, year). Not_verified_item author year) (take 3 not_found_list)
           @ (if length not_found_list > 3 then [Not_verified_more (length not_found_list - 3)] else [])
      else [])"

definition check_bibliographic_markers ::
    "citation_matches \<Rightarrow> string \<Rightarrow> bool \<Rightarrow> py_error + bib_flag list" where
  "check_bibliographic_markers found text verify_citations =
     (if text = [] then Inr []
      else
        let vague_flags =
              (if vague_count found \<ge> 3 then [Vague_citation_language (vague_count found)] else []);
            apa_citations = apa_parenthetical found @ apa_narrative found
        in case surname_citations apa_citations of
             Inl e \<Rightarrow> Inl e
           | Inr all_citations \<Rightarrow>
               Inr (vague_flags
                    @ citation_pattern_flags all_citations
                    @ (if length all_citations \<ge> 3 \<and> \<not> has_references_section found
                       then [No_references_section] else [])
                    @ (if verify_citations \<and> all_citations \<noteq> []
                       then verification_flags (not_found found) else [])))"

section \<open>Analysis of one submission\<close>

text \<open>
  A submission is a dictionary read with \<^verbatim>\<open>.get\<close>. The code treats an absent key and the
  value \<^verbatim>\<open>None\<close> alike for \<^verbatim>\<open>"user_id"\<close>, \<^verbatim>\<open>"body"\<close>, \<^verbatim>\<open>"attachments"\<close> and \<^verbatim>\<open>"url"\<close>, and these
  fields are \<open>None\<close> in both cases. It does not treat them alike for \<^verbatim>\<open>"user"\<close> and for the
  \<^verbatim>\<open>"size"\<close> and \<^verbatim>\<open>"filename"\<close> of an attachment, where \<^verbatim>\<open>.get\<close> returns its default for an
  absent key only. Such an entry is \<open>Absent\<close>, \<open>Null\<close> (the value \<^verbatim>\<open>None\<close>) or \<open>Present\<close> with a
  value. The \<^verbatim>\<open>"user"\<close> entry, when it is a dictionary, is given by its \<^verbatim>\<open>"name"\<close> entry.
\<close>

datatype 'a entry = Absent | Null | Present 'a

record attachment =
  att_size :: "int entry"
  att_filename :: "string entry"

record submission =
  user_id :: "int option"
  body :: "string option"
  attachments :: "attachment list option"
  url :: "string option"
  user :: "string entry entry"

text \<open>
  The name put into a similarity flag: the user's name, \<^verbatim>\<open>f"User {other_user_id}"\<close> when
  there is no name, or \<^verbatim>\<open>None\<close> when the name is \<^verbatim>\<open>None\<close>.
\<close>

datatype user_label = Name string | User_number "int option" | No_name

text \<open>
  A flag is a message of \<^verbatim>\<open>analyze_submission\<close>, one constructor per message text, with
  the values the message is formatted from. The messages returned by the checks on
  organisation, headings and prose keep their text and the check they come from.
\<close>

datatype flag =
    Very_short_text nat
  | Cliched_transitions nat
  | Excessive_hedging nat
  | Inflated_vocabulary "string list"
  | Generic_vague_content nat
  | Over_balanced nat
  | Excessive_passive_voice real
  | Lacks_personal_language
  | No_emotional_language
  | Suspiciously_uniform_paragraphs
  | Repetitive_reasoning
  | Copy_paste_indicators "string list"
  | Too_polished_for_notes real
  | Suspiciously_polished real
  | Organization string
  | Headings string
  | Prose_in_notes string
  | Bibliographic bib_flag
  | Highly_similar user_label real
  | Small_file "string option" int
  | Generic_filename "string option"
  | URL_with_no_description

text \<open>
  The checks that count phrases of fixed tables or match regular expressions are
  parameters of the analysis: each is the function of the text that the source function
  of the same name computes. \<open>citations\<close> gives the material of
  \<^verbatim>\<open>check_bibliographic_markers\<close> for a text, \<open>matches_generic_filename\<close> the result of
  matching the lower-cased file name against \<^verbatim>\<open>GENERIC_FILENAMES\<close>, and \<open>uniformity_score\<close>
  the float arithmetic of \<^verbatim>\<open>check_paragraph_uniformity\<close>.
\<close>

record text_checks =
  check_ai_transitions :: "string \<Rightarrow> nat"
  check_hedge_phrases :: "string \<Rightarrow> nat"
  check_inflated_vocabulary :: "string \<Rightarrow> string list"
  check_generic_content :: "string \<Rightarrow> nat"
  check_balance_markers :: "string \<Rightarrow> nat"
  check_passive_voice :: "string \<Rightarrow> nat"
  check_personal_markers :: "string \<Rightarrow> nat"
  check_emotional_markers :: "string \<Rightarrow> nat"
  check_copy_paste_indicators :: "string \<Rightarrow> string list"
  check_essay_organization :: "string \<Rightarrow> string list"
  check_headings_structure :: "string \<Rightarrow> string list"
  check_paragraph_as_prose_in_notes :: "string \<Rightarrow> string list"
  citations :: "string \<Rightarrow> citation_matches"
  matches_generic_filename :: "string \<Rightarrow> bool"
  uniformity_score :: "nat list \<Rightarrow> real"

definition MIN_FILE_SIZE :: int where
  "MIN_FILE_SIZE = 1024"

definition DUPLICATE_SIMILARITY_THRESHOLD :: real where
  "DUPLICATE_SIMILARITY_THRESHOLD = 85 / 100"

text \<open>
  \<^verbatim>\<open>check_generic_filename\<close> (lines 962-973); \<^verbatim>\<open>not filename\<close> holds of \<^verbatim>\<open>None\<close> and of the
  empty string.
\<close>

definition check_generic_filename :: "text_checks \<Rightarrow> string option \<Rightarrow> bool" where
  "check_generic_filename tc filename =
     (case filename of
        None \<Rightarrow> False
      | Some name \<Rightarrow> if name = [] then False else matches_generic_filename tc (lower name))"

text \<open>
  \<^verbatim>\<open>analyze_submission\<close> (lines 1929-2091) appends to one list of flags in eighteen numbered
  steps on the body, then the flags of the attachments and of the URL. No step reads the
  list, so each step is a function that returns the flags it appends, named after the
  comment that introduces it in the source, and the result is their concatenation.
\<close>

definition length_check :: "string option \<Rightarrow> string \<Rightarrow> flag list" where
  "length_check cp text =
     (let word_count = count_words text; min_words = get_threshold cp ''min_word_count''
      in if word_count > 0 \<and> word_count < min_words then [Very_short_text word_count] else [])"

definition transitions_check :: "text_checks \<Rightarrow> string option \<Rightarrow> string \<Rightarrow> flag list" where
  "transitions_check tc cp text =
     (if is_check_enabled cp ''ai_transitions''
      then let transition_count = check_ai_transitions tc text;
               threshold = get_threshold cp ''ai_transition_count''
           in if transition_count \<ge> threshold then [Cliched_transitions transition_count] else []
      else [])"

definition hedge_check :: "text_checks \<Rightarrow> string option \<Rightarrow> string \<Rightarrow> flag list" where
  "hedge_check tc cp text =
     (if is_check_enabled cp ''hedge_phrases''
      then let hedge_count = check_hedge_phrases tc text
           in if hedge_count \<ge> 2 then [Excessive_hedging hedge_count] else []
      else [])"

definition vocabulary_check :: "text_checks \<Rightarrow> string option \<Rightarrow> string \<Rightarrow> flag list" where
  "vocabulary_check tc cp text =
     (if is_check_enabled cp ''inflated_vocabulary''
      then let inflated = check_inflated_vocabulary tc text
           in if length inflated \<ge> 3 then [Inflated_vocabulary (take 3 inflated)] else []
      else [])"

definition generic_check :: "text_checks \<Rightarrow> string option \<Rightarrow> string \<Rightarrow> flag list" where
  "generic_check tc cp text =
     (if is_check_enabled cp ''generic_phrases''
      then let generic_count = check_generic_content tc text
           in if generic_count \<ge> 3 then [Generic_vague_content generic_count] else []
      else [])"

definition balance_check :: "text_checks \<Rightarrow> string option \<Rightarrow> string \<Rightarrow> flag list" where
  "balance_check tc cp text =
     (if is_check_enabled cp ''balance_markers''
      then let balance_count = check_balance_markers tc text
           in if balance_count \<ge> 2 then [Over_balanced balance_count] else []
      else [])"

text \<open>Step 7; the quotient is taken only after \<^verbatim>\<open>total_sentences > 5\<close> has held.\<close>

definition passive_check :: "text_checks \<Rightarrow> string option \<Rightarrow> string \<Rightarrow> flag list" where
  "passive_check tc cp text =
     (if is_check_enabled cp ''passive_voice''
      then let passive_count = check_passive_voice tc text;
               total_sentences = length (re_split_sentences text);
               passive_threshold = real (get_threshold cp ''passive_voice_percent'') / 100
           in if total_sentences > 5
                 \<and> real passive_count / real total_sentences > passive_threshold
              then [Excessive_passive_voice (real passive_count / real total_sentences)] else []
      else [])"

definition personal_check :: "text_checks \<Rightarrow> string option \<Rightarrow> string \<Rightarrow> flag list" where
  "personal_check tc cp text =
     (if is_check_enabled cp ''personal_markers''
      then let personal_count = check_personal_markers tc text
           in if count_words text > 200 \<and> personal_count < 3 then [Lacks_personal_language] else []
      else [])"

definition emotional_check :: "text_checks \<Rightarrow> string option \<Rightarrow> string \<Rightarrow> flag list" where
  "emotional_check tc cp text =
     (if is_check_enabled cp ''emotional_markers''
      then let emotional_count = check_emotional_markers tc text
           in if count_words text > 200 \<and> emotional_count = 0 then [No_emotional_language] else []
      else [])"

text \<open>Step 10 (lines 1999-2003).\<close>

definition uniformity_check :: "text_checks \<Rightarrow> string option \<Rightarrow> string \<Rightarrow> flag list" where
  "uniformity_check tc cp text =
     (if is_check_enabled cp ''complete_sentences''
      then let uniformity = check_paragraph_uniformity (uniformity_score tc) text
           in if uniformity > float_0_8 then [Suspiciously_uniform_paragraphs] else []
      else [])"

text \<open>Step 11 (lines 2005-2007).\<close>

definition repetition_check :: "string \<Rightarrow> flag list" where
  "repetition_check text =
     (if check_repetitive_reasoning text then [Repetitive_reasoning] else [])"

definition copy_paste_check :: "text_checks \<Rightarrow> string option \<Rightarrow> string \<Rightarrow> flag list" where
  "copy_paste_check tc cp text =
     (if is_check_enabled cp ''copy_paste''
      then let copy_indicators = check_copy_paste_indicators tc text
           in if copy_indicators \<noteq> [] then [Copy_paste_indicators copy_indicators] else []
      else [])"

text \<open>Step 13 (lines 2015-2031).\<close>

definition polish_check :: "string option \<Rightarrow> string \<Rightarrow> py_error + flag list" where
  "polish_check cp text =
     (if is_check_enabled cp ''complete_sentences''
      then (case check_sentence_completeness text of
              Inl e \<Rightarrow> Inl e
            | Inr completeness \<Rightarrow>
                let completeness_threshold =
                      real (get_threshold cp ''complete_sentence_percent'') / 100
                in if is_inverted cp ''complete_sentences''
                   then Inr (if completeness > completeness_threshold \<and> count_words text > 50
                             then [Too_polished_for_notes completeness] else [])
                   else Inr (if completeness > completeness_threshold \<and> count_words text > 100
                             then [Suspiciously_polished completeness] else []))
      else Inr [])"

definition organization_check :: "text_checks \<Rightarrow> string option \<Rightarrow> string \<Rightarrow> flag list" where
  "organization_check tc cp text =
     (if is_check_enabled cp ''essay_organization''
      then map Organization (check_essay_organization tc text) else [])"

definition headings_check :: "text_checks \<Rightarrow> string option \<Rightarrow> string \<Rightarrow> flag list" where
  "headings_check tc cp text =
     (if is_check_enabled cp ''headings_structure''
      then map Headings (check_headings_structure tc text) else [])"

definition prose_check :: "text_checks \<Rightarrow> string option \<Rightarrow> string \<Rightarrow> flag list" where
  "prose_check tc cp text =
     (if is_check_enabled cp ''paragraph_structure''
      then if is_inverted cp ''paragraph_structure''
           then map Prose_in_notes (check_paragraph_as_prose_in_notes tc text) else []
      else [])"

text \<open>Step 17; \<open>verify\<close> is the global \<^verbatim>\<open>VERIFY_CITATIONS\<close>.\<close>

definition bibliographic_check :: "text_checks \<Rightarrow> bool \<Rightarrow> string \<Rightarrow> py_error + flag list" where
  "bibliographic_check tc verify text =
     (if count_words text > 300
      then (case check_bibliographic_markers (citations tc text) text verify of
              Inl e \<Rightarrow> Inl e
            | Inr bib_flags \<Rightarrow> Inr (map Bibliographic bib_flags))
      else Inr [])"

text \<open>
  Line 2070, \<^verbatim>\<open>other_sub.get("user", {}).get("name", f"User {other_user_id}")\<close>: the first
  \<^verbatim>\<open>.get\<close> gives the empty dictionary for an absent \<^verbatim>\<open>"user"\<close> and \<^verbatim>\<open>None\<close> for a \<^verbatim>\<open>"user"\<close> that
  is \<^verbatim>\<open>None\<close>, on which the second \<^verbatim>\<open>.get\<close> raises \<^verbatim>\<open>AttributeError\<close>.
\<close>

definition get_name :: "string entry \<Rightarrow> int option \<Rightarrow> user_label" where
  "get_name name_entry other_user_id =
     (case name_entry of
        Absent \<Rightarrow> User_number other_user_id
      | Null \<Rightarrow> No_name
      | Present n \<Rightarrow> Name n)"

definition other_user_name :: "submission \<Rightarrow> py_error + user_label" where
  "other_user_name other_sub =
     (case user other_sub of
        Absent \<Rightarrow> Inr (get_name Absent (user_id other_sub))
      | Null \<Rightarrow> Inl AttributeError
      | Present name_entry \<Rightarrow> Inr (get_name name_entry (user_id other_sub)))"

text \<open>
  Step 18 (lines 2058-2072): the loop over \<^verbatim>\<open>all_submissions\<close>, with its \<^verbatim>\<open>continue\<close> and
  its \<^verbatim>\<open>break\<close>.
\<close>

fun similarity_scan ::
    "int option \<Rightarrow> string \<Rightarrow> submission list \<Rightarrow> py_error + flag list" where
  "similarity_scan current_user_id text [] = Inr []"
| "similarity_scan current_user_id text (other_sub # rest) =
     (if user_id other_sub = current_user_id then similarity_scan current_user_id text rest
      else (case body other_sub of
              None \<Rightarrow> similarity_scan current_user_id text rest
            | Some other_body \<Rightarrow>
                if other_body \<noteq> []
                then let similarity = calculate_text_similarity text other_body
                     in if similarity \<ge> DUPLICATE_SIMILARITY_THRESHOLD
                        then (case other_user_name other_sub of
                                Inl e \<Rightarrow> Inl e
                              | Inr name \<Rightarrow> Inr [Highly_similar name similarity])
                        else similarity_scan current_user_id text rest
                else similarity_scan current_user_id text rest))"

definition cross_submission_check ::
    "string option \<Rightarrow> submission \<Rightarrow> submission list \<Rightarrow> string \<Rightarrow> py_error + flag list" where
  "cross_submission_check cp sub all_submissions text =
     (if is_check_enabled cp ''cross_submission''
      then similarity_scan (user_id sub) text all_submissions else Inr [])"

definition body_checks ::
    "text_checks \<Rightarrow> bool \<Rightarrow> string option \<Rightarrow> submission \<Rightarrow> submission list \<Rightarrow> string
       \<Rightarrow> py_error + flag list" where
  "body_checks tc verify cp sub all_submissions text =
     (case polish_check cp text of
        Inl e \<Rightarrow> Inl e
      | Inr polish_flags \<Rightarrow>
          (case bibliographic_check tc verify text of
             Inl e \<Rightarrow> Inl e
           | Inr bib_flags \<Rightarrow>
               (case cross_submission_check cp sub all_submissions text of
                  Inl e \<Rightarrow> Inl e
                | Inr cross_flags \<Rightarrow>
                    Inr (length_check cp text @ transitions_check tc cp text
                         @ hedge_check tc cp text
                         @ vocabulary_check tc cp text @ generic_check tc cp text
                         @ balance_check tc cp text @ passive_check tc cp text
                         @ personal_check tc cp text @ emotional_check tc cp text
                         @ uniformity_check tc cp text @ repetition_check text
                         @ copy_paste_check tc cp text @ polish_flags
                         @ organization_check tc cp text @ headings_check tc cp text
                         @ prose_check tc cp text @ bib_flags
                         @ cross_flags))))"

text \<open>
  Lines 2074-2085: the two checks on each attached file. \<^verbatim>\<open>file.get("size", 0)\<close> is 0 for an
  absent size and \<^verbatim>\<open>None\<close> for a size that is \<^verbatim>\<open>None\<close>, on which \<^verbatim>\<open>file_size > 0\<close> raises
  \<^verbatim>\<open>TypeError\<close>. \<^verbatim>\<open>file.get("filename", "unknown")\<close> is \<^verbatim>\<open>None\<close> for a file name that is \<^verbatim>\<open>None\<close>.
\<close>

definition file_flags :: "text_checks \<Rightarrow> attachment \<Rightarrow> py_error + flag list" where
  "file_flags tc file =
     (let file_size = (case att_size file of
                         Absent \<Rightarrow> Some 0
                       | Null \<Rightarrow> None
                       | Present n \<Rightarrow> Some n);
          file_name = (case att_filename file of
                         Absent \<Rightarrow> Some ''unknown''
                       | Null \<Rightarrow> None
                       | Present n \<Rightarrow> Some n)
      in case file_size of
           None \<Rightarrow> Inl TypeError
         | Some file_size \<Rightarrow>
             Inr ((if file_size > 0 \<and> file_size < MIN_FILE_SIZE
                   then [Small_file file_name file_size] else [])
                  @ (if check_generic_filename tc file_name
                     then [Generic_filename file_name] else [])))"

fun attachment_loop :: "text_checks \<Rightarrow> attachment list \<Rightarrow> py_error + flag list" where
  "attachment_loop tc [] = Inr []"
| "attachment_loop tc (file # rest) =
     (case file_flags tc file of
        Inl e \<Rightarrow> Inl e
      | Inr file_fl \<Rightarrow>
          (case attachment_loop tc rest of
             Inl e \<Rightarrow> Inl e
           | Inr rest_fl \<Rightarrow> Inr (file_fl @ rest_fl)))"

definition attachment_checks :: "text_checks \<Rightarrow> submission \<Rightarrow> py_error + flag list" where
  "attachment_checks tc sub =
     (case attachments sub of
        None \<Rightarrow> Inr []
      | Some files \<Rightarrow> attachment_loop tc files)"

text \<open>
  The truth value of a field: \<^verbatim>\<open>None\<close>, the empty string and the empty list are false.
\<close>

definition truthy :: "'a list option \<Rightarrow> bool" where
  "truthy field = (case field of None \<Rightarrow> False | Some v \<Rightarrow> v \<noteq> [])"

definition url_check :: "submission \<Rightarrow> flag list" where
  "url_check sub =
     (if truthy (url sub) \<and> \<not> truthy (body sub) \<and> \<not> truthy (attachments sub)
      then [URL_with_no_description] else [])"

definition analyze_submission ::
    "text_checks \<Rightarrow> bool \<Rightarrow> string option \<Rightarrow> submission \<Rightarrow> submission list
       \<Rightarrow> py_error + flag list" where
  "analyze_submission tc verify cp sub all_submissions =
     (case (case body sub of
              None \<Rightarrow> Inr []
            | Some text \<Rightarrow>
                if text \<noteq> [] then body_checks tc verify cp sub all_submissions text else Inr [])
      of Inl e \<Rightarrow> Inl e
       | Inr body_flags \<Rightarrow>
           (case attachment_checks tc sub of
              Inl e \<Rightarrow> Inl e
            | Inr file_fl \<Rightarrow> Inr (body_flags @ file_fl @ url_check sub)))"

section \<open>Self-plagiarism across assignments\<close>

text \<open>
  \<^verbatim>\<open>check_cross_assignment_similarity\<close> (lines 2176-2262) takes \<^verbatim>\<open>all_data\<close>, a dictionary
  from assignment ids to the data of an assignment, of which it reads the name and the
  dictionary \<^verbatim>\<open>submission_texts\<close> from user ids to texts. A dictionary is the list of its
  items in insertion order. The function returns a pair; \<open>check_self_plagiarism\<close> is its
  first component, the dictionary \<^verbatim>\<open>self_plagiarism\<close> (lines 2183-2216), which does not
  depend on the second.
\<close>

record assignment_data =
  assignment_name :: string
  submission_texts :: "(int \<times> string) list"

record similar_pair =
  assignment1 :: string
  assignment1_id :: int
  assignment2 :: string
  assignment2_id :: int
  pair_similarity :: real

text \<open>\<^verbatim>\<open>d[k] = v\<close>: the value of an existing key is replaced, a new key is added last.\<close>

fun dict_set :: "'k \<Rightarrow> 'v \<Rightarrow> ('k \<times> 'v) list \<Rightarrow> ('k \<times> 'v) list" where
  "dict_set k v [] = [(k, v)]"
| "dict_set k v ((k', v') # rest) =
     (if k' = k then (k, v) # rest else (k', v') # dict_set k v rest)"

text \<open>
  The body of the loops of lines 2186-2189 on a \<^verbatim>\<open>defaultdict(dict)\<close>:
  \<^verbatim>\<open>student_submissions[user_id][assignment_id] = text\<close> for a text of more than 50 words.
\<close>

definition substantial :: "string \<Rightarrow> bool" where
  "substantial text = (text \<noteq> [] \<and> length (split text) > 50)"

definition add_submission ::
    "int \<Rightarrow> int \<Rightarrow> string \<Rightarrow> (int \<times> (int \<times> string) list) list
       \<Rightarrow> (int \<times> (int \<times> string) list) list" where
  "add_submission assignment_id uid text student_submissions =
     (if substantial text
      then dict_set uid
             (dict_set assignment_id text
                (case map_of student_submissions uid of Some d \<Rightarrow> d | None \<Rightarrow> []))
             student_submissions
      else student_submissions)"

definition collect_submissions ::
    "(int \<times> assignment_data) list \<Rightarrow> (int \<times> (int \<times> string) list) list" where
  "collect_submissions all_data =
     fold (\<lambda>(assignment_id, data) student_submissions.
             fold (\<lambda>(uid, text). add_submission assignment_id uid text)
                  (submission_texts data) student_submissions)
          all_data []"

text \<open>
  The inner loop of lines 2197-2211 for one first assignment: the later assignments of
  the student, in order. \<^verbatim>\<open>all_data[aid]["name"]\<close> raises for an id that is not a key.
\<close>

fun pairs_with ::
    "(int \<times> assignment_data) list \<Rightarrow> int \<Rightarrow> string \<Rightarrow> (int \<times> string) list
       \<Rightarrow> py_error + similar_pair list" where
  "pairs_with all_data aid1 text1 [] = Inr []"
| "pairs_with all_data aid1 text1 ((aid2, text2) # rest) =
     (if calculate_text_similarity text1 text2 \<ge> 7 / 10
      then (case map_of all_data aid1 of
              None \<Rightarrow> Inl KeyError
            | Some data1 \<Rightarrow>
                (case map_of all_data aid2 of
                   None \<Rightarrow> Inl KeyError
                 | Some data2 \<Rightarrow>
                     (case pairs_with all_data aid1 text1 rest of
                        Inl e \<Rightarrow> Inl e
                      | Inr ps \<Rightarrow>
                          Inr (\<lparr>assignment1 = assignment_name data1, assignment1_id = aid1,
                                assignment2 = assignment_name data2, assignment2_id = aid2,
                                pair_similarity = calculate_text_similarity text1 text2\<rparr>
                               # ps))))
      else pairs_with all_data aid1 text1 rest)"

text \<open>The outer loop of lines 2196-2211 over the assignments of one student.\<close>

fun student_pairs ::
    "(int \<times> assignment_data) list \<Rightarrow> (int \<times> string) list \<Rightarrow> py_error + similar_pair list" where
  "student_pairs all_data [] = Inr []"
| "student_pairs all_data ((aid1, text1) # rest) =
     (case pairs_with all_data aid1 text1 rest of
        Inl e \<Rightarrow> Inl e
      | Inr ps \<Rightarrow>
          (case student_pairs all_data rest of
             Inl e \<Rightarrow> Inl e
           | Inr qs \<Rightarrow> Inr (ps @ qs)))"

text \<open>The loop of lines 2192-2216 over the students; a student without a pair gets no entry.\<close>

fun self_plagiarism_of ::
    "(int \<times> assignment_data) list \<Rightarrow> (int \<times> (int \<times> string) list) list
       \<Rightarrow> py_error + (int \<times> similar_pair list) list" where
  "self_plagiarism_of all_data [] = Inr []"
| "self_plagiarism_of all_data ((uid, assignments) # rest) =
     (case student_pairs all_data assignments of
        Inl e \<Rightarrow> Inl e
      | Inr similar_pairs \<Rightarrow>
          (case self_plagiarism_of all_data rest of
             Inl e \<Rightarrow> Inl e
           | Inr self_plagiarism \<Rightarrow>
               Inr (if similar_pairs \<noteq> [] then (uid, similar_pairs) # self_plagiarism
                    else self_plagiarism)))"

definition check_self_plagiarism ::
    "(int \<times> assignment_data) list \<Rightarrow> py_error + (int \<times> similar_pair list) list" where
  "check_self_plagiarism all_data = self_plagiarism_of all_data (collect_submissions all_data)"

text \<open>\<^verbatim>\<open>student_submissions[uid][aid]\<close>, if both keys are there.\<close>

definition stored :: "(int \<times> (int \<times> string) list) list \<Rightarrow> int \<Rightarrow> int \<Rightarrow> string option" where
  "stored student_submissions uid aid =
     (case map_of student_submissions uid of
        None \<Rightarrow> None
      | Some assignments \<Rightarrow> map_of assignments aid)"

text \<open>The text that a student submitted to an assignment, if any.\<close>

definition submitted :: "(int \<times> assignment_data) list \<Rightarrow> int \<Rightarrow> int \<Rightarrow> string option" where
  "submitted all_data aid uid =
     (case map_of all_data aid of None \<Rightarrow> None | Some data \<Rightarrow> map_of (submission_texts data) uid)"

text \<open>
  \<^verbatim>\<open>all_data\<close> and every \<^verbatim>\<open>submission_texts\<close> are dictionaries: no key occurs twice among
  their items.
\<close>

definition dictionaries :: "(int \<times> assignment_data) list \<Rightarrow> bool" where
  "dictionaries all_data =
     (distinct (map fst all_data)
      \<and> list_all (\<lambda>(aid, data). distinct (map fst (submission_texts data))) all_data)"

section \<open>Notions used to state the properties\<close>

text \<open>
  The author of a citation, as the two APA patterns capture it, begins with a capital
  letter followed by lower-case letters, so it has a first word. The analysis depends on
  the \<^verbatim>\<open>re\<close> library only through this fact, which is stated of what the library found
  in a text.
\<close>

definition authors_matched :: "citation_matches \<Rightarrow> bool" where
  "authors_matched found =
     list_all (\<lambda>(author, year). split author \<noteq> []) (apa_parenthetical found @ apa_narrative found)"

text \<open>
  The numbered step of \<^verbatim>\<open>analyze_submission\<close> that appends a flag: 1 to 18 for the checks
  on the body in the order of the source, 19 for the loop over the attachments and 20 for
  the check of the URL.
\<close>

fun step_of :: "flag \<Rightarrow> nat" where
  "step_of (Very_short_text _) = 1"
| "step_of (Cliched_transitions _) = 2"
| "step_of (Excessive_hedging _) = 3"
| "step_of (Inflated_vocabulary _) = 4"
| "step_of (Generic_vague_content _) = 5"
| "step_of (Over_balanced _) = 6"
| "step_of (Excessive_passive_voice _) = 7"
| "step_of Lacks_personal_language = 8"
| "step_of No_emotional_language = 9"
| "step_of Suspiciously_uniform_paragraphs = 10"
| "step_of Repetitive_reasoning = 11"
| "step_of (Copy_paste_indicators _) = 12"
| "step_of (Too_polished_for_notes _) = 13"
| "step_of (Suspiciously_polished _) = 13"
| "step_of (Organization _) = 14"
| "step_of (Headings _) = 15"
| "step_of (Prose_in_notes _) = 16"
| "step_of (Bibliographic _) = 17"
| "step_of (Highly_similar _ _) = 18"
| "step_of (Small_file _ _) = 19"
| "step_of (Generic_filename _) = 19"
| "step_of URL_with_no_description = 20"

text \<open>\<^verbatim>\<open>submission.get("body", "")\<close>, with \<^verbatim>\<open>None\<close> read as the empty text.\<close>

definition body_text :: "submission \<Rightarrow> string" where
  "body_text sub = (case body sub of None \<Rightarrow> [] | Some text \<Rightarrow> text)"

text \<open>
  A sibling that ends the scan of step 18: it belongs to another user, has a body, and
  the similarity of the two bodies reaches \<^verbatim>\<open>DUPLICATE_SIMILARITY_THRESHOLD\<close>.
\<close>

definition similar_sibling :: "int option \<Rightarrow> string \<Rightarrow> submission \<Rightarrow> bool" where
  "similar_sibling current_user_id text other_sub =
     (user_id other_sub \<noteq> current_user_id
      \<and> body_text other_sub \<noteq> []
      \<and> calculate_text_similarity text (body_text other_sub) \<ge> 85 / 100)"

definition is_highly_similar :: "flag \<Rightarrow> bool" where
  "is_highly_similar x = (case x of Highly_similar _ _ \<Rightarrow> True | _ \<Rightarrow> False)"

text \<open>
  The records on which lines 2070 and 2081 do not raise: no attachment of the submission
  has a \<^verbatim>\<open>"size"\<close> that is \<^verbatim>\<open>None\<close>, and no sibling has a \<^verbatim>\<open>"user"\<close> that is \<^verbatim>\<open>None\<close>.
\<close>

definition attached_files :: "submission \<Rightarrow> attachment list" where
  "attached_files sub = (case attachments sub of None \<Rightarrow> [] | Some files \<Rightarrow> files)"

definition sizes_and_users_given :: "submission \<Rightarrow> submission list \<Rightarrow> bool" where
  "sizes_and_users_given sub all_submissions =
     (list_all (\<lambda>file. att_size file \<noteq> Null) (attached_files sub)
      \<and> list_all (\<lambda>other_sub. user other_sub \<noteq> Null) all_submissions)"

text \<open>
  The value of lines 885-897 without rounding. When all word counts are the same non-zero
  number every operation of these lines is exact in floating point (the average is that
  number, the deviations, the variance, its root and the quotient are 0), and the float
  returned is this value, 1.
\<close>

definition unrounded_score :: "nat list \<Rightarrow> real" where
  "unrounded_score lengths =
     (let avg_length = real (sum_list lengths) / real (length lengths);
          variance = sum_list (map (\<lambda>l. (real l - avg_length)\<^sup>2) lengths) / real (length lengths);
          std_dev = sqrt variance
      in if avg_length = 0 then 0
         else let coefficient_of_variation = std_dev / avg_length
              in if coefficient_of_variation < 1 then 1 - coefficient_of_variation else 0)"

text \<open>
  Two values for concrete instances: the checks on texts in which no phrase of the tables
  and no pattern occurs and whose paragraphs have the same number of words, and a
  submission that consists of a body only, with the name of its user.
\<close>

definition plain_text_checks :: text_checks where
  "plain_text_checks = \<lparr>
     check_ai_transitions = (\<lambda>_. 0),
     check_hedge_phrases = (\<lambda>_. 0),
     check_inflated_vocabulary = (\<lambda>_. []),
     check_generic_content = (\<lambda>_. 0),
     check_balance_markers = (\<lambda>_. 0),
     check_passive_voice = (\<lambda>_. 0),
     check_personal_markers = (\<lambda>_. 0),
     check_emotional_markers = (\<lambda>_. 0),
     check_copy_paste_indicators = (\<lambda>_. []),
     check_essay_organization = (\<lambda>_. []),
     check_headings_structure = (\<lambda>_. []),
     check_paragraph_as_prose_in_notes = (\<lambda>_. []),
     citations = (\<lambda>_. \<lparr>vague_count = 0, apa_parenthetical = [], apa_narrative = [],
                         has_references_section = False, not_found = []\<rparr>),
     matches_generic_filename = (\<lambda>_. False),
     uniformity_score = unrounded_score\<rparr>"

definition text_only :: "int \<Rightarrow> string \<Rightarrow> string \<Rightarrow> submission" where
  "text_only uid name text =
     \<lparr>user_id = Some uid, body = Some text, attachments = None, url = None,
      user = Present (Present name)\<rparr>"

section \<open>Properties of the similarity score\<close>

lemma card_inter_le_union:
  fixes A B :: "'a set"
  assumes "finite A" "finite B"
  shows "card (A \<inter> B) \<le> card (A \<union> B)"
  using assms by (intro card_mono) auto

lemma similarity_commute:
  "calculate_text_similarity a b = calculate_text_similarity b a"
  by (auto simp: calculate_text_similarity_def Let_def Int_commute Un_commute)

lemma similarity_range:
  "0 \<le> calculate_text_similarity a b \<and> calculate_text_similarity a b \<le> 1"
  using card_inter_le_union [of "set (split (strip (lower a)))" "set (split (strip (lower b)))"]
  by (auto simp: calculate_text_similarity_def Let_def divide_le_eq_1 card_gt_0_iff)

lemma similarity_self: "a \<noteq> [] \<Longrightarrow> calculate_text_similarity a a = 1"
  by (simp add: calculate_text_similarity_def)

text \<open>
  C1. The similarity score is symmetric, it is 1 between a non-empty text and itself, it
  is 0 as soon as one of the two texts is empty, and it always lies between 0 and 1.
\<close>

theorem similarity_score_invariant:
  "calculate_text_similarity a b = calculate_text_similarity b a
   \<and> (a \<noteq> [] \<longrightarrow> calculate_text_similarity a a = 1)
   \<and> calculate_text_similarity [] b = 0
   \<and> calculate_text_similarity a [] = 0
   \<and> 0 \<le> calculate_text_similarity a b
   \<and> calculate_text_similarity a b \<le> 1"
proof -
  have sym: "calculate_text_similarity a b = calculate_text_similarity b a"
    by (auto simp: calculate_text_similarity_def Let_def Int_commute Un_commute)
  have rng: "0 \<le> calculate_text_similarity a b \<and> calculate_text_similarity a b \<le> 1"
    using card_inter_le_union
      [of "set (split (strip (lower a)))" "set (split (strip (lower b)))"]
    by (auto simp: calculate_text_similarity_def Let_def divide_le_eq_1 card_gt_0_iff)
  show ?thesis
    using sym rng by (simp add: calculate_text_similarity_def)
qed

theorem similarity_score_invariant_witness:
  "''The cat sat'' \<noteq> []
   \<and> calculate_text_similarity ''The cat sat'' ''The cat sat'' = 1
   \<and> calculate_text_similarity ''The cat sat'' ''a dog'' = calculate_text_similarity ''a dog'' ''The cat sat''"
  using similarity_score_invariant [of "''The cat sat''" "''a dog''"] by simp

section \<open>Properties of the draft comparison\<close>

lemma dropWhile_nil_iff: "dropWhile P xs = [] \<longleftrightarrow> (\<forall>x\<in>set xs. P x)"
  by (induction xs) auto

lemma strip_nil_iff: "strip s = [] \<longleftrightarrow> (\<forall>c\<in>set s. py_isspace c)"
proof -
  have "strip s = [] \<longleftrightarrow> (\<forall>c\<in>set (dropWhile py_isspace s). py_isspace c)"
    by (simp add: strip_def dropWhile_nil_iff)
  also have "\<dots> \<longleftrightarrow> dropWhile py_isspace s = []"
    using hd_dropWhile [of py_isspace s] by (cases "dropWhile py_isspace s") (auto dest: set_dropWhileD)
  also have "\<dots> \<longleftrightarrow> (\<forall>c\<in>set s. py_isspace c)"
    by (rule dropWhile_nil_iff)
  finally show ?thesis .
qed

lemma split_blank_aux_chars:
  "set cur \<union> set s \<subseteq> (\<Union>p\<in>set (split_blank_aux cur s). set p) \<union> {CHR 0x0A}"
  by (induction cur s rule: split_blank_aux.induct) auto

lemma line_feed_isspace: "py_isspace (CHR 0x0A)"
  by (simp add: py_isspace_def)

lemma paragraphs_nil_spaces:
  assumes "paragraphs d = []"
  shows "\<forall>c\<in>set d. py_isspace c"
proof
  fix c assume c: "c \<in> set d"
  from assms have all: "\<forall>p\<in>set (split_blank_lines d). strip p = []"
    by (auto simp: paragraphs_def filter_empty_conv)
  from c split_blank_aux_chars [of "[]" d]
  have "c = CHR 0x0A \<or> (\<exists>p\<in>set (split_blank_lines d). c \<in> set p)"
    by (auto simp: split_blank_lines_def)
  then show "py_isspace c"
    using all line_feed_isspace by (auto simp: strip_nil_iff)
qed

lemma lower_char_space: "py_isspace c \<Longrightarrow> lower_char c = c"
  by (auto simp: lower_char_def py_isspace_def py_isupper_def Let_def)

lemma strip_lower_spaces:
  assumes "\<forall>c\<in>set d. py_isspace c"
  shows "strip (lower d) = []"
  using assms by (auto simp: strip_nil_iff lower_def lower_char_space)

lemma no_paragraphs_similarity:
  assumes "d1 \<noteq> []" "d2 \<noteq> []" "paragraphs d1 = []" "paragraphs d2 = []"
  shows "calculate_text_similarity d1 d2 = 1"
  using assms strip_lower_spaces [OF paragraphs_nil_spaces]
  by (simp add: calculate_text_similarity_def)

lemma regeneration_flags_total:
  assumes "d1 \<noteq> []" "d2 \<noteq> []"
  shows "\<exists>fs. regeneration_flags (calculate_text_similarity d1 d2) (paragraphs d1) (paragraphs d2) = Inr fs"
proof (cases "paragraphs d1 = [] \<and> paragraphs d2 = []")
  case True
  with assms have "calculate_text_similarity d1 d2 = 1"
    by (simp add: no_paragraphs_similarity)
  then show ?thesis by (simp add: regeneration_flags_def)
next
  case False
  then show ?thesis by (auto simp: regeneration_flags_def Let_def)
qed

text \<open>
  C6. For every non-empty text, comparing the text with itself returns without error,
  with revision score 0 and with the critical no-revision flag among the flags: the
  similarity is 1, which is at least 0.98, and the function returns on that branch.
\<close>

theorem compare_drafts_identical:
  "t \<noteq> [] \<Longrightarrow>
     \<exists>r. compare_drafts t t = Inr r \<and> revision_score r = 0
       \<and> No_revision_occurred \<in> set (flags r)"
  by (simp add: compare_drafts_def Let_def calculate_text_similarity_def)

theorem compare_drafts_identical_witness:
  "''My first draft.'' \<noteq> []
   \<and> (\<exists>r. compare_drafts ''My first draft.'' ''My first draft.'' = Inr r
         \<and> revision_score r = 0 \<and> No_revision_occurred \<in> set (flags r))"
  using compare_drafts_identical [of "''My first draft.''"] by simp

text \<open>
  C10. For every pair of drafts the comparison returns a result, and its revision score
  is at most 60: at most 30 for the sentence-change ratio, 10 for a changed number of
  paragraphs and at most 20 for new vocabulary.
\<close>

theorem compare_drafts_score_le_60:
  "\<exists>r. compare_drafts d1 d2 = Inr r \<and> revision_score r \<le> 60"
proof (cases "d1 = [] \<or> d2 = []")
  case True
  then show ?thesis by (auto simp: compare_drafts_def)
next
  case False
  then obtain fs where
    "regeneration_flags (calculate_text_similarity d1 d2) (paragraphs d1) (paragraphs d2) = Inr fs"
    using regeneration_flags_total [of d1 d2] by auto
  with False show ?thesis
    by (simp add: compare_drafts_def Let_def)
qed

theorem compare_drafts_score_le_60_witness:
  "\<exists>r. compare_drafts ''a'' ''b'' = Inr r \<and> revision_score r \<le> 60"
  using compare_drafts_score_le_60 [of "''a''" "''b''"] by simp

section \<open>The steps of the analysis\<close>

lemma step_length: "x \<in> set (length_check cp t) \<Longrightarrow> step_of x = 1"
  by (auto simp: length_check_def Let_def split: if_splits)
lemma step_transitions: "x \<in> set (transitions_check tc cp t) \<Longrightarrow> step_of x = 2"
  by (auto simp: transitions_check_def Let_def split: if_splits)
lemma step_hedge: "x \<in> set (hedge_check tc cp t) \<Longrightarrow> step_of x = 3"
  by (auto simp: hedge_check_def Let_def split: if_splits)
lemma step_vocabulary: "x \<in> set (vocabulary_check tc cp t) \<Longrightarrow> step_of x = 4"
  by (auto simp: vocabulary_check_def Let_def split: if_splits)
lemma step_generic: "x \<in> set (generic_check tc cp t) \<Longrightarrow> step_of x = 5"
  by (auto simp: generic_check_def Let_def split: if_splits)
lemma step_balance: "x \<in> set (balance_check tc cp t) \<Longrightarrow> step_of x = 6"
  by (auto simp: balance_check_def Let_def split: if_splits)
lemma step_passive: "x \<in> set (passive_check tc cp t) \<Longrightarrow> step_of x = 7"
  by (auto simp: passive_check_def Let_def split: if_splits)
lemma step_personal: "x \<in> set (personal_check tc cp t) \<Longrightarrow> step_of x = 8"
  by (auto simp: personal_check_def Let_def split: if_splits)
lemma step_emotional: "x \<in> set (emotional_check tc cp t) \<Longrightarrow> step_of x = 9"
  by (auto simp: emotional_check_def Let_def split: if_splits)
lemma step_uniformity: "x \<in> set (uniformity_check tc cp t) \<Longrightarrow> step_of x = 10"
  by (auto simp: uniformity_check_def Let_def split: if_splits)
lemma step_repetition: "x \<in> set (repetition_check t) \<Longrightarrow> step_of x = 11"
  by (auto simp: repetition_check_def split: if_splits)
lemma step_copy_paste: "x \<in> set (copy_paste_check tc cp t) \<Longrightarrow> step_of x = 12"
  by (auto simp: copy_paste_check_def Let_def split: if_splits)
lemma step_polish: "polish_check cp t = Inr fs \<Longrightarrow> x \<in> set fs \<Longrightarrow> step_of x = 13"
  by (auto simp: polish_check_def Let_def split: if_splits sum.splits)
lemma step_organization: "x \<in> set (organization_check tc cp t) \<Longrightarrow> step_of x = 14"
  by (auto simp: organization_check_def split: if_splits)
lemma step_headings: "x \<in> set (headings_check tc cp t) \<Longrightarrow> step_of x = 15"
  by (auto simp: headings_check_def split: if_splits)
lemma step_prose: "x \<in> set (prose_check tc cp t) \<Longrightarrow> step_of x = 16"
  by (auto simp: prose_check_def split: if_splits)
lemma step_bibliographic: "bibliographic_check tc v t = Inr fs \<Longrightarrow> x \<in> set fs \<Longrightarrow> step_of x = 17"
  by (auto simp: bibliographic_check_def split: if_splits sum.splits)
lemma step_scan: "similarity_scan u t subs = Inr fs \<Longrightarrow> x \<in> set fs \<Longrightarrow> step_of x = 18"
  by (induction u t subs rule: similarity_scan.induct)
     (auto simp: Let_def split: if_splits option.splits sum.splits)
lemma step_cross: "cross_submission_check cp sub subs t = Inr fs \<Longrightarrow> x \<in> set fs \<Longrightarrow> step_of x = 18"
  by (auto simp: cross_submission_check_def dest: step_scan split: if_splits)
lemma step_file: "file_flags tc file = Inr fs \<Longrightarrow> x \<in> set fs \<Longrightarrow> step_of x = 19"
  by (auto simp: file_flags_def Let_def split: entry.splits option.splits if_splits)
lemma step_loop: "attachment_loop tc files = Inr fs \<Longrightarrow> x \<in> set fs \<Longrightarrow> step_of x = 19"
  by (induction files arbitrary: fs) (auto dest: step_file split: sum.splits)
lemma step_attachments: "attachment_checks tc sub = Inr fs \<Longrightarrow> x \<in> set fs \<Longrightarrow> step_of x = 19"
  by (auto simp: attachment_checks_def dest: step_loop split: option.splits)
lemma step_url: "x \<in> set (url_check sub) \<Longrightarrow> step_of x = 20"
  by (auto simp: url_check_def split: if_splits)

lemmas step_origin =
  step_length step_transitions step_hedge step_vocabulary step_generic step_balance
  step_passive step_personal step_emotional step_uniformity step_repetition step_copy_paste
  step_polish step_organization step_headings step_prose step_bibliographic step_cross
  step_attachments step_url

text \<open>The flags of a step are exactly the flags of the result that belong to that step.\<close>

lemma body_checks_step:
  assumes "body_checks tc v cp sub subs t = Inr fl"
  obtains pf bf cf where
    "polish_check cp t = Inr pf" "bibliographic_check tc v t = Inr bf"
    "cross_submission_check cp sub subs t = Inr cf"
    "fl = length_check cp t @ transitions_check tc cp t @ hedge_check tc cp t
          @ vocabulary_check tc cp t @ generic_check tc cp t
          @ balance_check tc cp t @ passive_check tc cp t
          @ personal_check tc cp t @ emotional_check tc cp t
          @ uniformity_check tc cp t @ repetition_check t
          @ copy_paste_check tc cp t @ pf
          @ organization_check tc cp t @ headings_check tc cp t
          @ prose_check tc cp t @ bf
          @ cf"
  using assms by (auto simp: body_checks_def split: sum.splits)

lemma filter_step_none: "(\<And>x. x \<in> set xs \<Longrightarrow> step_of x = k) \<Longrightarrow> k \<noteq> n \<Longrightarrow> filter (\<lambda>x. step_of x = n) xs = []"
  by (auto simp: filter_empty_conv)

lemma filter_step_all: "(\<And>x. x \<in> set xs \<Longrightarrow> step_of x = n) \<Longrightarrow> filter (\<lambda>x. step_of x = n) xs = xs"
  by (auto simp: filter_id_conv)

lemma split_aux_nonempty: "w \<noteq> [] \<Longrightarrow> split_aux w s \<noteq> []"
  by (induction s arbitrary: w) auto

lemma split_nil [simp]: "split [] = []"
  by (simp add: split_def)

lemma count_complete_total: "\<exists>n. count_complete ss = Inr n"
proof (induction ss)
  case Nil
  show ?case by simp
next
  case (Cons s ss)
  then obtain n where n: "count_complete ss = Inr n" by blast
  show ?case
  proof (cases s)
    case Nil
    with n show ?thesis by simp
  next
    case (Cons c cs)
    with n show ?thesis by simp
  qed
qed

lemma check_sentence_completeness_total: "\<exists>c. check_sentence_completeness t = Inr c"
proof -
  obtain n where
    "count_complete (map strip (filter (\<lambda>s. strip s \<noteq> []) (re_split_sentences t))) = Inr n"
    using count_complete_total by blast
  then show ?thesis by (simp add: check_sentence_completeness_def Let_def)
qed

lemma polish_check_total: "\<exists>fs. polish_check cp t = Inr fs"
  using check_sentence_completeness_total [of t]
  by (auto simp: polish_check_def Let_def)

lemma surname_citations_total:
  "list_all (\<lambda>(author, year). split author \<noteq> []) cs \<Longrightarrow> \<exists>r. surname_citations cs = Inr r"
proof (induction cs)
  case Nil
  show ?case by simp
next
  case (Cons c cs)
  obtain author year where c: "c = (author, year)" by (cases c)
  from Cons obtain r where r: "surname_citations cs = Inr r" by auto
  from Cons.prems c obtain w ws where "split author = w # ws"
    by (cases "split author") auto
  with r c show ?case by (simp add: first_surname_def)
qed

lemma check_bibliographic_markers_total:
  "authors_matched found \<Longrightarrow> \<exists>fs. check_bibliographic_markers found t v = Inr fs"
  using surname_citations_total [of "apa_parenthetical found @ apa_narrative found"]
  by (auto simp: check_bibliographic_markers_def authors_matched_def Let_def)

lemma bibliographic_check_total:
  "authors_matched (citations tc t) \<Longrightarrow> \<exists>fs. bibliographic_check tc v t = Inr fs"
  using check_bibliographic_markers_total [of "citations tc t" t v]
  by (auto simp: bibliographic_check_def)

lemma other_user_name_given:
  "user other_sub \<noteq> Null \<Longrightarrow> \<exists>name. other_user_name other_sub = Inr name"
  by (simp add: other_user_name_def split: entry.splits)

lemma similarity_scan_find:
  "similarity_scan u t subs =
     (case find (similar_sibling u t) subs of
        None \<Rightarrow> Inr []
      | Some other_sub \<Rightarrow>
          (case other_user_name other_sub of
             Inl e \<Rightarrow> Inl e
           | Inr name \<Rightarrow>
               Inr [Highly_similar name (calculate_text_similarity t (body_text other_sub))]))"
  by (induction u t subs rule: similarity_scan.induct)
     (auto simp: similar_sibling_def body_text_def DUPLICATE_SIMILARITY_THRESHOLD_def Let_def
           split: option.splits sum.splits)

lemma find_user_given:
  assumes "list_all (\<lambda>other_sub. user other_sub \<noteq> Null) subs" "find P subs = Some other_sub"
  shows "\<exists>name. other_user_name other_sub = Inr name"
proof -
  from assms(2) have "other_sub \<in> set subs" by (auto simp: find_Some_iff)
  with assms(1) have "user other_sub \<noteq> Null" by (simp add: list_all_iff)
  then show ?thesis by (rule other_user_name_given)
qed

lemma similarity_scan_total:
  assumes "list_all (\<lambda>other_sub. user other_sub \<noteq> Null) subs"
  shows "\<exists>fs. similarity_scan u t subs = Inr fs"
proof (cases "find (similar_sibling u t) subs")
  case None
  then show ?thesis by (simp add: similarity_scan_find)
next
  case (Some other_sub)
  from find_user_given [OF assms Some] obtain name where "other_user_name other_sub = Inr name"
    by blast
  with Some show ?thesis by (simp add: similarity_scan_find)
qed

lemma cross_submission_check_total:
  assumes "list_all (\<lambda>other_sub. user other_sub \<noteq> Null) subs"
  shows "\<exists>fs. cross_submission_check cp sub subs t = Inr fs"
  using similarity_scan_total [OF assms] by (simp add: cross_submission_check_def)

lemma file_flags_total: "att_size file \<noteq> Null \<Longrightarrow> \<exists>fs. file_flags tc file = Inr fs"
  by (cases "att_size file") (simp_all add: file_flags_def Let_def)

lemma attachment_loop_total:
  "list_all (\<lambda>file. att_size file \<noteq> Null) files \<Longrightarrow> \<exists>fs. attachment_loop tc files = Inr fs"
proof (induction files)
  case Nil
  show ?case by simp
next
  case (Cons a files)
  then obtain rest_fl where r: "attachment_loop tc files = Inr rest_fl" by auto
  from Cons.prems obtain file_fl where "file_flags tc a = Inr file_fl"
    using file_flags_total [of a tc] by auto
  with r show ?case by simp
qed

lemma attachment_checks_total:
  assumes "list_all (\<lambda>file. att_size file \<noteq> Null) (attached_files sub)"
  shows "\<exists>fs. attachment_checks tc sub = Inr fs"
  using assms attachment_loop_total [of "attached_files sub" tc]
  by (auto simp: attachment_checks_def attached_files_def split: option.splits)

lemma body_checks_total:
  assumes "authors_matched (citations tc t)" "list_all (\<lambda>other_sub. user other_sub \<noteq> Null) subs"
  shows "\<exists>fl. body_checks tc v cp sub subs t = Inr fl"
  using polish_check_total [of cp t] bibliographic_check_total [OF assms(1), of v]
    cross_submission_check_total [OF assms(2), of cp sub t]
  by (auto simp: body_checks_def)

lemma analyze_submission_total:
  assumes "authors_matched (citations tc (body_text sub))" "sizes_and_users_given sub subs"
  shows "\<exists>fl. analyze_submission tc v cp sub subs = Inr fl"
proof -
  from assms(2) have u: "list_all (\<lambda>other_sub. user other_sub \<noteq> Null) subs"
    and s: "list_all (\<lambda>file. att_size file \<noteq> Null) (attached_files sub)"
    by (simp_all add: sizes_and_users_given_def)
  from attachment_checks_total [OF s] obtain af where af: "attachment_checks tc sub = Inr af"
    by blast
  show ?thesis
  proof (cases "body sub")
    case None
    with af show ?thesis by (simp add: analyze_submission_def)
  next
    case (Some t)
    with assms have "authors_matched (citations tc t)" by (simp add: body_text_def)
    from body_checks_total [OF this u, of v cp sub] Some af
    show ?thesis by (auto simp: analyze_submission_def)
  qed
qed

text \<open>The flags of the result that come from one step of the body.\<close>

lemma analyze_submission_step:
  assumes "analyze_submission tc v cp sub subs = Inr fl" "n \<le> 18"
  shows "filter (\<lambda>x. step_of x = n) fl =
         (if body_text sub = [] then []
          else case body_checks tc v cp sub subs (body_text sub) of
                 Inl e \<Rightarrow> [] | Inr bfl \<Rightarrow> filter (\<lambda>x. step_of x = n) bfl)"
proof -
  from assms(1) obtain af where af: "attachment_checks tc sub = Inr af"
    by (auto simp: analyze_submission_def split: sum.splits)
  have att: "filter (\<lambda>x. step_of x = n) af = []"
    using assms(2) by (intro filter_step_none [where k = 19]) (auto dest: step_attachments [OF af])
  have url: "filter (\<lambda>x. step_of x = n) (url_check sub) = []"
    using assms(2) by (intro filter_step_none [where k = 20]) (auto dest: step_url)
  show ?thesis
    using assms(1) af att url
    by (auto simp: analyze_submission_def body_text_def split: option.splits sum.splits if_splits)
qed

lemma filter_step_piece:
  "(\<And>x. x \<in> set xs \<Longrightarrow> step_of x = k) \<Longrightarrow>
     filter (\<lambda>x. step_of x = n) xs = (if k = n then xs else [])"
  by (auto simp: filter_empty_conv filter_id_conv)

lemma body_checks_filter:
  assumes "body_checks tc v cp sub subs t = Inr fl"
  obtains pf bf cf where
    "polish_check cp t = Inr pf" "bibliographic_check tc v t = Inr bf"
    "cross_submission_check cp sub subs t = Inr cf"
    "\<And>n. filter (\<lambda>x. step_of x = n) fl =
       (if 1 = n then length_check cp t else [])
       @ (if 2 = n then transitions_check tc cp t else [])
       @ (if 3 = n then hedge_check tc cp t else [])
       @ (if 4 = n then vocabulary_check tc cp t else [])
       @ (if 5 = n then generic_check tc cp t else [])
       @ (if 6 = n then balance_check tc cp t else [])
       @ (if 7 = n then passive_check tc cp t else [])
       @ (if 8 = n then personal_check tc cp t else [])
       @ (if 9 = n then emotional_check tc cp t else [])
       @ (if 10 = n then uniformity_check tc cp t else [])
       @ (if 11 = n then repetition_check t else [])
       @ (if 12 = n then copy_paste_check tc cp t else [])
       @ (if 13 = n then pf else [])
       @ (if 14 = n then organization_check tc cp t else [])
       @ (if 15 = n then headings_check tc cp t else [])
       @ (if 16 = n then prose_check tc cp t else [])
       @ (if 17 = n then bf else [])
       @ (if 18 = n then cf else [])"
proof -
  from assms obtain pf bf cf where
    pf: "polish_check cp t = Inr pf" and bf: "bibliographic_check tc v t = Inr bf" and
    cf: "cross_submission_check cp sub subs t = Inr cf" and
    fl: "fl = length_check cp t @ transitions_check tc cp t @ hedge_check tc cp t
          @ vocabulary_check tc cp t @ generic_check tc cp t
          @ balance_check tc cp t @ passive_check tc cp t
          @ personal_check tc cp t @ emotional_check tc cp t
          @ uniformity_check tc cp t @ repetition_check t
          @ copy_paste_check tc cp t @ pf
          @ organization_check tc cp t @ headings_check tc cp t
          @ prose_check tc cp t @ bf
          @ cf"
    by (rule body_checks_step)
  show thesis
  proof (rule that [OF pf bf cf])
    fix n
    show "filter (\<lambda>x. step_of x = n) fl =
       (if 1 = n then length_check cp t else [])
       @ (if 2 = n then transitions_check tc cp t else [])
       @ (if 3 = n then hedge_check tc cp t else [])
       @ (if 4 = n then vocabulary_check tc cp t else [])
       @ (if 5 = n then generic_check tc cp t else [])
       @ (if 6 = n then balance_check tc cp t else [])
       @ (if 7 = n then passive_check tc cp t else [])
       @ (if 8 = n then personal_check tc cp t else [])
       @ (if 9 = n then emotional_check tc cp t else [])
       @ (if 10 = n then uniformity_check tc cp t else [])
       @ (if 11 = n then repetition_check t else [])
       @ (if 12 = n then copy_paste_check tc cp t else [])
       @ (if 13 = n then pf else [])
       @ (if 14 = n then organization_check tc cp t else [])
       @ (if 15 = n then headings_check tc cp t else [])
       @ (if 16 = n then prose_check tc cp t else [])
       @ (if 17 = n then bf else [])
       @ (if 18 = n then cf else [])"
      unfolding fl filter_append
      by (simp only:
        filter_step_piece [OF step_length] filter_step_piece [OF step_transitions]
        filter_step_piece [OF step_hedge] filter_step_piece [OF step_vocabulary]
        filter_step_piece [OF step_generic] filter_step_piece [OF step_balance]
        filter_step_piece [OF step_passive] filter_step_piece [OF step_personal]
        filter_step_piece [OF step_emotional] filter_step_piece [OF step_uniformity]
        filter_step_piece [OF step_repetition] filter_step_piece [OF step_copy_paste]
        filter_step_piece [OF step_polish [OF pf]] filter_step_piece [OF step_organization]
        filter_step_piece [OF step_headings] filter_step_piece [OF step_prose]
        filter_step_piece [OF step_bibliographic [OF bf]]
        filter_step_piece [OF step_cross [OF cf]])
  qed
qed

lemma in_set_step: "x \<in> set fl \<longleftrightarrow> x \<in> set (filter (\<lambda>y. step_of y = step_of x) fl)"
  by simp

text \<open>The flags of one step of the body in the result of the whole analysis.\<close>

lemma analyze_submission_body_step:
  assumes "authors_matched (citations tc (body_text sub))" "sizes_and_users_given sub subs"
  obtains fl pf cf where
    "analyze_submission tc v cp sub subs = Inr fl"
    "polish_check cp (body_text sub) = Inr pf"
    "cross_submission_check cp sub subs (body_text sub) = Inr cf"
    "filter (\<lambda>x. step_of x = 10) fl =
       (if body_text sub = [] then [] else uniformity_check tc cp (body_text sub))"
    "filter (\<lambda>x. step_of x = 11) fl =
       (if body_text sub = [] then [] else repetition_check (body_text sub))"
    "filter (\<lambda>x. step_of x = 13) fl = (if body_text sub = [] then [] else pf)"
    "filter (\<lambda>x. step_of x = 18) fl = (if body_text sub = [] then [] else cf)"
proof -
  from assms(2) have u: "list_all (\<lambda>other_sub. user other_sub \<noteq> Null) subs"
    by (simp add: sizes_and_users_given_def)
  obtain fl where fl: "analyze_submission tc v cp sub subs = Inr fl"
    using analyze_submission_total [OF assms] by blast
  obtain bfl where bfl: "body_checks tc v cp sub subs (body_text sub) = Inr bfl"
    using body_checks_total [OF assms(1) u] by blast
  from bfl obtain pf bf cf where
    pf: "polish_check cp (body_text sub) = Inr pf" and
    cf: "cross_submission_check cp sub subs (body_text sub) = Inr cf" and
    f: "\<And>n. filter (\<lambda>x. step_of x = n) bfl =
       (if 1 = n then length_check cp (body_text sub) else [])
       @ (if 2 = n then transitions_check tc cp (body_text sub) else [])
       @ (if 3 = n then hedge_check tc cp (body_text sub) else [])
       @ (if 4 = n then vocabulary_check tc cp (body_text sub) else [])
       @ (if 5 = n then generic_check tc cp (body_text sub) else [])
       @ (if 6 = n then balance_check tc cp (body_text sub) else [])
       @ (if 7 = n then passive_check tc cp (body_text sub) else [])
       @ (if 8 = n then personal_check tc cp (body_text sub) else [])
       @ (if 9 = n then emotional_check tc cp (body_text sub) else [])
       @ (if 10 = n then uniformity_check tc cp (body_text sub) else [])
       @ (if 11 = n then repetition_check (body_text sub) else [])
       @ (if 12 = n then copy_paste_check tc cp (body_text sub) else [])
       @ (if 13 = n then pf else [])
       @ (if 14 = n then organization_check tc cp (body_text sub) else [])
       @ (if 15 = n then headings_check tc cp (body_text sub) else [])
       @ (if 16 = n then prose_check tc cp (body_text sub) else [])
       @ (if 17 = n then bf else [])
       @ (if 18 = n then cf else [])"
    by (rule body_checks_filter) blast
  have s: "filter (\<lambda>x. step_of x = n) fl =
         (if body_text sub = [] then [] else filter (\<lambda>x. step_of x = n) bfl)" if "n \<le> 18" for n
    using analyze_submission_step [OF fl that] bfl by simp
  show thesis
  proof (rule that [OF fl pf cf])
    show "filter (\<lambda>x. step_of x = 10) fl =
       (if body_text sub = [] then [] else uniformity_check tc cp (body_text sub))"
      by (simp add: s f)
    show "filter (\<lambda>x. step_of x = 11) fl =
       (if body_text sub = [] then [] else repetition_check (body_text sub))"
      by (simp add: s f)
    show "filter (\<lambda>x. step_of x = 13) fl = (if body_text sub = [] then [] else pf)"
      by (simp add: s f)
    show "filter (\<lambda>x. step_of x = 18) fl = (if body_text sub = [] then [] else cf)"
      by (simp add: s f)
  qed
qed

lemma is_highly_similar_step: "is_highly_similar = (\<lambda>x. step_of x = 18)"
  by (rule ext) (simp add: is_highly_similar_def split: flag.splits)


lemma is_check_enabled_None: "is_check_enabled None name"
  by (simp add: is_check_enabled_def)

lemma profile_keys:
  "map_of ASSIGNMENT_PROFILES key = Some p \<Longrightarrow>
     p = notes_brainstorm \<or> p = rough_draft \<or> p = personal_reflection \<or> p = discussion_post
     \<or> p = analytical_essay \<or> p = research_paper \<or> p = creative_writing \<or> p = standard"
  by (auto simp: ASSIGNMENT_PROFILES_def split: if_splits)

lemma get_profile_cases:
  "get_profile key \<in> {notes_brainstorm, rough_draft, personal_reflection, discussion_post,
     analytical_essay, research_paper, creative_writing, standard}"
  using profile_keys [of key] by (cases "map_of ASSIGNMENT_PROFILES key") (auto simp: get_profile_def)

lemma inverted_notes:
  assumes "map_of (invert_checks p) ''complete_sentences'' = Some True"
    and "p \<in> {notes_brainstorm, rough_draft, personal_reflection, discussion_post,
     analytical_essay, research_paper, creative_writing, standard}"
  shows "p = notes_brainstorm"
  using assms
  by (auto simp: rough_draft_def personal_reflection_def discussion_post_def
        analytical_essay_def research_paper_def creative_writing_def standard_def)

lemma notes_enabled: "map_of (checks_enabled notes_brainstorm) ''complete_sentences'' = Some True"
  by (simp add: notes_brainstorm_def)

lemma inverted_enabled:
  assumes "is_inverted cp ''complete_sentences''"
  shows "is_check_enabled cp ''complete_sentences''"
proof (cases cp)
  case None
  then show ?thesis by (simp add: is_check_enabled_def)
next
  case (Some key)
  with assms have "map_of (invert_checks (get_profile key)) ''complete_sentences'' = Some True"
    by (auto simp: is_inverted_def split: if_splits option.splits)
  then have "get_profile key = notes_brainstorm"
    using get_profile_cases [of key] by (rule inverted_notes)
  with Some show ?thesis by (simp add: is_check_enabled_def notes_enabled)
qed

section \<open>Counting the similar pairs of sentences\<close>

lemma fold_count_filter:
  "fold (\<lambda>j acc. if Q j then acc + 1 else acc) xs (a::nat) = a + length (filter Q xs)"
  by (induction xs arbitrary: a) auto

lemma fold_add_sum:
  "fold (\<lambda>i acc. acc + f i) xs (a::nat) = a + sum_list (map f xs)"
  by (induction xs arbitrary: a) auto

lemma length_filter_upt:
  "length (filter Q [a..<b]) = card {j. a \<le> j \<and> j < b \<and> Q j}"
proof -
  have "distinct (filter Q [a..<b])" by simp
  then have "card (set (filter Q [a..<b])) = length (filter Q [a..<b])"
    by (rule distinct_card)
  moreover have "set (filter Q [a..<b]) = {j. a \<le> j \<and> j < b \<and> Q j}" by auto
  ultimately show ?thesis by simp
qed

lemma card_pairs_sum:
  "card {(i, j). i < j \<and> j < n \<and> P i j}
     = (\<Sum>i\<in>{0..<n - 1}. card {j. Suc i \<le> j \<and> j < n \<and> P i j})"
proof -
  have "{(i, j). i < j \<and> j < n \<and> P i j}
          = (SIGMA i:{0..<n - 1}. {j. Suc i \<le> j \<and> j < n \<and> P i j})"
    by auto
  moreover have "finite {j. Suc i \<le> j \<and> j < n \<and> P i j}" for i by simp
  ultimately show ?thesis by (simp add: card_SigmaI)
qed

lemma count_similar_pairs_card:
  "count_similar_pairs ss =
     card {(i, j). i < j \<and> j < length ss
                   \<and> calculate_text_similarity (ss ! i) (ss ! j) > 7 / 10}"
proof -
  have "count_similar_pairs ss =
          sum_list (map (\<lambda>i. length (filter (\<lambda>j. calculate_text_similarity (ss ! i) (ss ! j) > 7 / 10)
                                        [i + 1 ..< length ss])) [0 ..< length ss - 1])"
    by (simp add: count_similar_pairs_def fold_count_filter fold_add_sum)
  also have "\<dots> = (\<Sum>i\<in>{0..<length ss - 1}.
                 card {j. Suc i \<le> j \<and> j < length ss
                          \<and> calculate_text_similarity (ss ! i) (ss ! j) > 7 / 10})"
    by (simp add: interv_sum_list_conv_sum_set_nat length_filter_upt)
  finally show ?thesis by (simp add: card_pairs_sum)
qed

lemma card_all_pairs: "2 * card {(i, j). i < j \<and> j < (n::nat)} = n * (n - 1)"
proof (induction n)
  case 0
  show ?case by simp
next
  case (Suc n)
  have split: "{(i, j). i < j \<and> j < Suc n} = {(i, j). i < j \<and> j < n} \<union> (\<lambda>i. (i, n)) ` {0..<n}"
    by (auto simp: less_Suc_eq)
  have fin: "finite {(i, j). i < j \<and> j < n}"
    by (rule finite_subset [of _ "{0..<n} \<times> {0..<n}"]) auto
  have disj: "{(i, j). i < j \<and> j < n} \<inter> (\<lambda>i. (i, n)) ` {0..<n} = {}" by auto
  have "card {(i, j). i < j \<and> j < Suc n} = card {(i, j). i < j \<and> j < n} + n"
    unfolding split using fin disj
    by (simp add: card_Un_disjoint card_image inj_on_def)
  with Suc show ?case by (cases n) auto
qed

lemma check_repetitive_reasoning_nil: "check_repetitive_reasoning [] = False"
  by (simp add: check_repetitive_reasoning_def)

lemma check_repetitive_reasoning_iff:
  "check_repetitive_reasoning text \<longleftrightarrow>
     (let ss = long_sentences text; n = length ss
      in 5 \<le> n
         \<and> real (card {(i, j). i < j \<and> j < n
                                \<and> calculate_text_similarity (ss ! i) (ss ! j) > 7 / 10})
             > 2 / 10 * real (card {(i, j). i < j \<and> j < n}))"
proof (cases "text = []")
  case True
  have "long_sentences [] = []"
    by (simp add: long_sentences_def re_split_sentences_def strip_def)
  with True show ?thesis by (simp add: check_repetitive_reasoning_def)
next
  case False
  define ss where "ss = long_sentences text"
  define n where "n = length ss"
  have tot: "real (n * (n - 1)) / 2 = real (card {(i, j). i < j \<and> j < n})"
    using card_all_pairs [of n] by (metis nonzero_mult_div_cancel_left of_nat_mult of_nat_numeral zero_neq_numeral)
  show ?thesis
  proof (cases "n < 5")
    case True
    with False show ?thesis
      by (simp add: check_repetitive_reasoning_def Let_def ss_def [symmetric] n_def [symmetric])
  next
    case ge: False
    then have pos: "0 < real (card {(i, j). i < j \<and> j < n})"
      using card_all_pairs [of n] by (cases "card {(i, j). i < j \<and> j < n}") auto
    with False ge show ?thesis
      unfolding check_repetitive_reasoning_def Let_def ss_def [symmetric] n_def [symmetric]
        count_similar_pairs_card tot
      by (simp add: field_simps n_def)
  qed
qed

section \<open>The most common year of the citations\<close>

lemma set_counter_keys: "set (counter_keys xs) = set xs"
  by (induction xs) auto

lemma most_common_fold:
  assumes "fold (\<lambda>k' (best, n). if count_list xs k' > n then (k', count_list xs k') else (best, n))
             ks (b, count_list xs b) = (b', n')"
  shows "n' = count_list xs b' \<and> b' \<in> insert b (set ks)
         \<and> (\<forall>k\<in>insert b (set ks). count_list xs k \<le> n')"
  using assms
proof (induction ks arbitrary: b)
  case Nil
  then show ?case by auto
next
  case (Cons k ks)
  show ?case
  proof (cases "count_list xs k > count_list xs b")
    case True
    with Cons.prems have "fold (\<lambda>k' (best, n). if count_list xs k' > n then (k', count_list xs k') else (best, n))
             ks (k, count_list xs k) = (b', n')" by simp
    from Cons.IH [OF this] True show ?thesis by auto
  next
    case False
    with Cons.prems have "fold (\<lambda>k' (best, n). if count_list xs k' > n then (k', count_list xs k') else (best, n))
             ks (b, count_list xs b) = (b', n')" by simp
    from Cons.IH [OF this] False show ?thesis by auto
  qed
qed

lemma most_common_Some:
  assumes "most_common xs = Some (y, n)"
  shows "n = count_list xs y \<and> y \<in> set xs \<and> (\<forall>z. count_list xs z \<le> n)"
proof -
  from assms obtain k ks where ks: "counter_keys xs = k # ks"
    by (cases "counter_keys xs") (auto simp: most_common_def)
  with assms have f: "fold (\<lambda>k' (best, n). if count_list xs k' > n then (k', count_list xs k') else (best, n))
             ks (k, count_list xs k) = (y, n)"
    by (simp add: most_common_def)
  have keys: "insert k (set ks) = set xs"
    using set_counter_keys [of xs] ks by simp
  from most_common_fold [OF f] keys
  have a: "n = count_list xs y" and b: "y \<in> set xs" and c: "\<forall>z\<in>set xs. count_list xs z \<le> n"
    by auto
  have "count_list xs z \<le> n" for z
  proof (cases "z \<in> set xs")
    case True
    with c show ?thesis by blast
  next
    case False
    then show ?thesis by (simp add: count_list_0_iff)
  qed
  with a b show ?thesis by blast
qed

lemma most_common_None: "most_common xs = None \<Longrightarrow> xs = []"
  by (cases xs) (auto simp: most_common_def split: list.splits prod.splits)

lemma verification_flags_not_clustered: "Clustered_in_year y n \<notin> set (verification_flags nf)"
  by (auto simp: verification_flags_def dest: in_set_takeD)

lemma citation_pattern_flags_clustered:
  "(\<exists>y n. Clustered_in_year y n \<in> set (citation_pattern_flags cs)) \<longleftrightarrow>
     (\<exists>y. 3 \<le> count_list (map snd cs) y
          \<and> real (count_list (map snd cs) y) / real (length cs) > 4 / 10)"
proof (cases "cs = []")
  case True
  then show ?thesis by (simp add: citation_pattern_flags_def)
next
  case False
  then have ne: "map snd cs \<noteq> []" by simp
  then obtain y n where mc: "most_common (map snd cs) = Some (y, n)"
    using most_common_None [of "map snd cs"] by (cases "most_common (map snd cs)") auto
  note props = most_common_Some [OF mc]
  have lhs: "(\<exists>y n. Clustered_in_year y n \<in> set (citation_pattern_flags cs)) \<longleftrightarrow>
          (3 \<le> n \<and> real n / real (length cs) > 4 / 10)"
    using False mc by (auto simp: citation_pattern_flags_def Let_def)
  have pos: "0 < real (length cs)" using False by simp
  show ?thesis
  proof
    assume "\<exists>y n. Clustered_in_year y n \<in> set (citation_pattern_flags cs)"
    with lhs props show "\<exists>y. 3 \<le> count_list (map snd cs) y
          \<and> real (count_list (map snd cs) y) / real (length cs) > 4 / 10"
      by auto
  next
    assume "\<exists>y. 3 \<le> count_list (map snd cs) y
          \<and> real (count_list (map snd cs) y) / real (length cs) > 4 / 10"
    then obtain z where z: "3 \<le> count_list (map snd cs) z"
      "real (count_list (map snd cs) z) / real (length cs) > 4 / 10" by blast
    from props have le: "count_list (map snd cs) z \<le> n" by blast
    then have "real (count_list (map snd cs) z) / real (length cs) \<le> real n / real (length cs)"
      using pos by (simp add: divide_right_mono)
    with z have "3 \<le> n \<and> real n / real (length cs) > 4 / 10"
      using le by linarith
    with lhs show "\<exists>y n. Clustered_in_year y n \<in> set (citation_pattern_flags cs)"
      by blast
  qed
qed

section \<open>Concrete evaluations\<close>

lemma plain_authors_matched: "authors_matched (citations plain_text_checks t)"
  by (simp add: authors_matched_def plain_text_checks_def)


lemma text_only_given:
  "list_all (\<lambda>other_sub. user other_sub \<noteq> Null) subs \<Longrightarrow>
     sizes_and_users_given (text_only uid name t) subs"
  by (simp add: sizes_and_users_given_def attached_files_def text_only_def)

lemma text_only_fields:
  "body_text (text_only uid name t) = t"
  "user_id (text_only uid name t) = Some uid"
  "user (text_only uid name t) = Present (Present name)"
  "other_user_name (text_only uid name t) = Inr (Name name)"
  by (simp_all add: body_text_def text_only_def other_user_name_def get_name_def)

lemma float_0_8_bounds: "8 / 10 < float_0_8" "float_0_8 < 8 / 10 + 1 / 10 ^ 16"
  by (simp_all add: float_0_8_def)




lemma ex_completeness: "check_sentence_completeness
   ''Aa b c d e f g h. Aa b c d e f g h. Aa b c d e f g h. Aa b c d e f g h. Aa b c d e f g h. Aa b c d e f g h. Aa b c d e f g h.'' = Inr 1"
  by code_simp

lemma ex_word_count: "count_words
   ''Aa b c d e f g h. Aa b c d e f g h. Aa b c d e f g h. Aa b c d e f g h. Aa b c d e f g h. Aa b c d e f g h. Aa b c d e f g h.'' = 56"
  by code_simp

lemma ex_notes_inverted: "is_inverted (Some ''notes_brainstorm'') ''complete_sentences''"
  by code_simp

lemma ex_notes_threshold: "get_threshold (Some ''notes_brainstorm'') ''complete_sentence_percent'' = 50"
  by code_simp

lemma ex_repetitive: "check_repetitive_reasoning
  ''The quick brown fox jumps high. The quick brown fox jumps high. The quick brown fox jumps high. The quick brown fox jumps high. The quick brown fox jumps high.''"
  by code_simp

text \<open>
  Four long sentences and one of 19 characters: the short one is not counted, fewer than
  five sentences remain, and the check does not hold.
\<close>

lemma ex_short_sentence: "\<not> check_repetitive_reasoning
  ''The quick brown fox jumps high. The quick brown fox jumps high. The quick brown fox jumps high. The quick brown fox jumps high. The quick brown fox.''"
  by code_simp

lemma ex_first_sibling: "find (similar_sibling (Some 1) ''the cat sat on the mat'')
    [text_only 1 ''Me'' ''the cat sat on the mat'', text_only 2 ''Ann'' ''The cat sat on the mat'',
     text_only 3 ''Bob'' ''the cat sat on the mat'']
   = Some (text_only 2 ''Ann'' ''The cat sat on the mat'')"
  by code_simp

lemma ex_siblings_given: "list_all (\<lambda>other_sub. user other_sub \<noteq> Null)
    [text_only 1 ''Me'' ''the cat sat on the mat'', text_only 2 ''Ann'' ''The cat sat on the mat'',
     text_only 3 ''Bob'' ''the cat sat on the mat'']"
  by (simp add: text_only_fields)

text \<open>
  A sibling whose \<^verbatim>\<open>"user"\<close> is \<^verbatim>\<open>None\<close> and whose body matches: line 2070 raises
  \<^verbatim>\<open>AttributeError\<close>.
\<close>

lemma ex_user_null:
  "similarity_scan (Some 1) ''the cat sat on the mat''
     [\<lparr>user_id = Some 2, body = Some ''The cat sat on the mat'', attachments = None,
       url = None, user = Null\<rparr>] = Inl AttributeError"
  by code_simp

section \<open>Properties of the analysis of a submission\<close>

text \<open>
  When no size of an attachment and no user of a sibling is \<^verbatim>\<open>None\<close>, and the checks on the
  text return, the analysis returns a list of flags. In it, a body that is absent,
  \<^verbatim>\<open>None\<close> or empty leaves no flag of the steps 1 to 18, absent attachments leave no flag of
  the attachments, and an absent URL leaves no flag of the URL.
\<close>

lemma analyze_submission_absent_fields:
  assumes "authors_matched (citations tc (body_text sub))" and "sizes_and_users_given sub subs"
  shows "\<exists>fl. analyze_submission tc v cp sub subs = Inr fl
           \<and> (\<not> truthy (body sub) \<longrightarrow> filter (\<lambda>x. step_of x \<le> 18) fl = [])
           \<and> (\<not> truthy (attachments sub) \<longrightarrow> filter (\<lambda>x. step_of x = 19) fl = [])
           \<and> (\<not> truthy (url sub) \<longrightarrow> filter (\<lambda>x. step_of x = 20) fl = [])"
proof -
  from assms(2) have u: "list_all (\<lambda>other_sub. user other_sub \<noteq> Null) subs"
    by (simp add: sizes_and_users_given_def)
  obtain fl where fl: "analyze_submission tc v cp sub subs = Inr fl"
    using analyze_submission_total [OF assms] by blast
  obtain bfl where bfl: "body_checks tc v cp sub subs (body_text sub) = Inr bfl"
    using body_checks_total [OF assms(1) u] by blast
  from fl obtain af where af: "attachment_checks tc sub = Inr af"
    by (auto simp: analyze_submission_def split: sum.splits)
  have bstep: "step_of x \<le> 18" if "x \<in> set bfl" for x
  proof -
    from bfl obtain pf bf cf where
      f: "\<And>n. filter (\<lambda>x. step_of x = n) bfl =
       (if 1 = n then length_check cp (body_text sub) else [])
       @ (if 2 = n then transitions_check tc cp (body_text sub) else [])
       @ (if 3 = n then hedge_check tc cp (body_text sub) else [])
       @ (if 4 = n then vocabulary_check tc cp (body_text sub) else [])
       @ (if 5 = n then generic_check tc cp (body_text sub) else [])
       @ (if 6 = n then balance_check tc cp (body_text sub) else [])
       @ (if 7 = n then passive_check tc cp (body_text sub) else [])
       @ (if 8 = n then personal_check tc cp (body_text sub) else [])
       @ (if 9 = n then emotional_check tc cp (body_text sub) else [])
       @ (if 10 = n then uniformity_check tc cp (body_text sub) else [])
       @ (if 11 = n then repetition_check (body_text sub) else [])
       @ (if 12 = n then copy_paste_check tc cp (body_text sub) else [])
       @ (if 13 = n then pf else [])
       @ (if 14 = n then organization_check tc cp (body_text sub) else [])
       @ (if 15 = n then headings_check tc cp (body_text sub) else [])
       @ (if 16 = n then prose_check tc cp (body_text sub) else [])
       @ (if 17 = n then bf else [])
       @ (if 18 = n then cf else [])"
      by (rule body_checks_filter) blast
    show ?thesis
    proof (rule ccontr)
      assume "\<not> step_of x \<le> 18"
      then have "filter (\<lambda>y. step_of y = step_of x) bfl = []"
        unfolding f by simp
      with that show False by (auto simp: filter_empty_conv)
    qed
  qed
  have shape: "fl = (if truthy (body sub) then bfl else []) @ af @ url_check sub"
    using fl bfl af
    by (auto simp: analyze_submission_def truthy_def body_text_def split: option.splits sum.splits)
  have a: "\<not> truthy (body sub) \<longrightarrow> filter (\<lambda>x. step_of x \<le> 18) fl = []"
    unfolding shape by (auto simp: filter_empty_conv dest: step_attachments [OF af] step_url)
  have b: "\<not> truthy (attachments sub) \<longrightarrow> filter (\<lambda>x. step_of x = 19) fl = []"
    unfolding shape using af
    by (auto simp: filter_empty_conv attachment_checks_def truthy_def
        dest: step_url bstep split: option.splits)
  have c: "\<not> truthy (url sub) \<longrightarrow> filter (\<lambda>x. step_of x = 20) fl = []"
    unfolding shape
    by (auto simp: filter_empty_conv url_check_def dest: step_attachments [OF af] bstep)
  from fl a b c show ?thesis by blast
qed

text \<open>
  C2. The scan for similar submissions leaves at most one "Highly similar" flag in the
  result. When the body is not empty and the check is enabled, the flag is the one of the
  first sibling of another user whose non-empty body has similarity at least 0.85 with
  the body, it names that sibling, and the siblings after it add nothing; when there is
  no such sibling there is no such flag. The records are those in which no size of an
  attachment and no user of a sibling is \<^verbatim>\<open>None\<close>.
\<close>

theorem one_similarity_flag:
  assumes "authors_matched (citations tc (body_text sub))"
    and "sizes_and_users_given sub subs"
  shows "\<exists>fl. analyze_submission tc v cp sub subs = Inr fl
           \<and> length (filter is_highly_similar fl) \<le> 1
           \<and> (if body_text sub \<noteq> [] \<and> is_check_enabled cp ''cross_submission''
               then (case find (similar_sibling (user_id sub) (body_text sub)) subs of
                       None \<Rightarrow> filter is_highly_similar fl = []
                     | Some other_sub \<Rightarrow>
                         (\<exists>name. other_user_name other_sub = Inr name
                            \<and> filter is_highly_similar fl =
                                [Highly_similar name
                                   (calculate_text_similarity (body_text sub)
                                      (body_text other_sub))]))
               else filter is_highly_similar fl = [])"
proof -
  from assms(2) have u: "list_all (\<lambda>other_sub. user other_sub \<noteq> Null) subs"
    by (simp add: sizes_and_users_given_def)
  obtain fl cf where fl: "analyze_submission tc v cp sub subs = Inr fl" and
    cf: "cross_submission_check cp sub subs (body_text sub) = Inr cf" and
    f: "filter (\<lambda>x. step_of x = 18) fl = (if body_text sub = [] then [] else cf)"
    using analyze_submission_body_step [OF assms, of v cp] by metis
  have hs: "filter is_highly_similar fl = (if body_text sub = [] then [] else cf)"
    unfolding is_highly_similar_step by (rule f)
  have eq: "if body_text sub \<noteq> [] \<and> is_check_enabled cp ''cross_submission''
               then (case find (similar_sibling (user_id sub) (body_text sub)) subs of
                       None \<Rightarrow> filter is_highly_similar fl = []
                     | Some other_sub \<Rightarrow>
                         (\<exists>name. other_user_name other_sub = Inr name
                            \<and> filter is_highly_similar fl =
                                [Highly_similar name
                                   (calculate_text_similarity (body_text sub)
                                      (body_text other_sub))]))
               else filter is_highly_similar fl = []"
  proof (cases "body_text sub \<noteq> [] \<and> is_check_enabled cp ''cross_submission''")
    case False
    with cf hs show ?thesis by (auto simp: cross_submission_check_def)
  next
    case True
    with cf have scan: "similarity_scan (user_id sub) (body_text sub) subs = Inr cf"
      by (simp add: cross_submission_check_def)
    show ?thesis
    proof (cases "find (similar_sibling (user_id sub) (body_text sub)) subs")
      case None
      with scan have "cf = []" by (simp add: similarity_scan_find)
      with True None hs show ?thesis by simp
    next
      case (Some other_sub)
      from find_user_given [OF u Some] obtain name where
        name: "other_user_name other_sub = Inr name" by blast
      with scan Some have "cf = [Highly_similar name
          (calculate_text_similarity (body_text sub) (body_text other_sub))]"
        by (simp add: similarity_scan_find)
      with True Some hs name show ?thesis by simp
    qed
  qed
  have "length (filter is_highly_similar fl) \<le> 1"
    using eq by (auto split: if_splits option.splits)
  with fl eq show ?thesis by blast
qed

lemma ex_same_text:
  "calculate_text_similarity ''the cat sat on the mat'' ''The cat sat on the mat'' = 1"
  by code_simp

theorem one_similarity_flag_witness:
  "authors_matched (citations plain_text_checks (body_text (text_only 1 ''Me'' ''the cat sat on the mat'')))
   \<and> sizes_and_users_given (text_only 1 ''Me'' ''the cat sat on the mat'')
        [text_only 1 ''Me'' ''the cat sat on the mat'',
         text_only 2 ''Ann'' ''The cat sat on the mat'',
         text_only 3 ''Bob'' ''the cat sat on the mat'']
   \<and> (\<exists>fl. analyze_submission plain_text_checks False None
              (text_only 1 ''Me'' ''the cat sat on the mat'')
              [text_only 1 ''Me'' ''the cat sat on the mat'',
               text_only 2 ''Ann'' ''The cat sat on the mat'',
               text_only 3 ''Bob'' ''the cat sat on the mat''] = Inr fl
          \<and> filter is_highly_similar fl = [Highly_similar (Name ''Ann'') 1])"
proof -
  have g: "sizes_and_users_given (text_only 1 ''Me'' ''the cat sat on the mat'')
        [text_only 1 ''Me'' ''the cat sat on the mat'',
         text_only 2 ''Ann'' ''The cat sat on the mat'',
         text_only 3 ''Bob'' ''the cat sat on the mat'']"
    by (rule text_only_given [OF ex_siblings_given])
  show ?thesis
    using one_similarity_flag [where tc = plain_text_checks and v = False and cp = None
        and sub = "text_only 1 ''Me'' ''the cat sat on the mat''"
        and subs = "[text_only 1 ''Me'' ''the cat sat on the mat'',
          text_only 2 ''Ann'' ''The cat sat on the mat'',
          text_only 3 ''Bob'' ''the cat sat on the mat'']", OF plain_authors_matched g]
    unfolding text_only_fields ex_first_sibling
    by (auto simp: plain_authors_matched g text_only_fields ex_same_text is_check_enabled_None)
qed

text \<open>
  C4. \<^verbatim>\<open>check_repetitive_reasoning\<close> holds of a text exactly when the pieces between the runs
  of \<^verbatim>\<open>.\<close>, \<^verbatim>\<open>!\<close> and \<^verbatim>\<open>?\<close> that, trimmed, have more than 20 characters are at least
  five, and more than 20 percent of all pairs of these trimmed (and lower-cased) sentences
  have a similarity above 0.7; and the analysis of a submission, under any profile, has
  the repetition flag exactly when the check holds of the body. The records are those in
  which no size of an attachment and no user of a sibling is \<^verbatim>\<open>None\<close>.
\<close>

theorem repetitive_reasoning_check:
  assumes "authors_matched (citations tc (body_text sub))"
    and "sizes_and_users_given sub subs"
  shows "(check_repetitive_reasoning text \<longleftrightarrow>
            (let ss = map (\<lambda>s. lower (strip s))
                        (filter (\<lambda>s. length (strip s) > 20) (re_split_sentences text));
                 n = length ss
             in 5 \<le> n
                \<and> real (card {(i, j). i < j \<and> j < n
                                       \<and> calculate_text_similarity (ss ! i) (ss ! j) > 7 / 10})
                    > 2 / 10 * real (card {(i, j). i < j \<and> j < n})))
         \<and> (\<exists>fl. analyze_submission tc v cp sub subs = Inr fl
                \<and> (Repetitive_reasoning \<in> set fl \<longleftrightarrow>
                     check_repetitive_reasoning (body_text sub)))"
proof -
  obtain fl where fl: "analyze_submission tc v cp sub subs = Inr fl" and
    f: "filter (\<lambda>x. step_of x = 11) fl =
       (if body_text sub = [] then [] else repetition_check (body_text sub))"
    using analyze_submission_body_step [OF assms, of v cp] by metis
  have "Repetitive_reasoning \<in> set fl \<longleftrightarrow>
        Repetitive_reasoning \<in> set (filter (\<lambda>x. step_of x = 11) fl)"
    by simp
  also have "\<dots> \<longleftrightarrow> check_repetitive_reasoning (body_text sub)"
    unfolding f by (auto simp: repetition_check_def check_repetitive_reasoning_nil)
  finally have "\<exists>fl. analyze_submission tc v cp sub subs = Inr fl
                \<and> (Repetitive_reasoning \<in> set fl \<longleftrightarrow>
                     check_repetitive_reasoning (body_text sub))"
    using fl by blast
  then show ?thesis
    using check_repetitive_reasoning_iff [of "text"] unfolding long_sentences_def by blast
qed

theorem repetitive_reasoning_check_witness:
  "authors_matched (citations plain_text_checks (body_text (text_only 1 ''Ann'' ''The quick brown fox jumps high. The quick brown fox jumps high. The quick brown fox jumps high. The quick brown fox jumps high. The quick brown fox jumps high.'')))
   \<and> sizes_and_users_given (text_only 1 ''Ann'' ''The quick brown fox jumps high. The quick brown fox jumps high. The quick brown fox jumps high. The quick brown fox jumps high. The quick brown fox jumps high.'') []
   \<and> (\<exists>fl. analyze_submission plain_text_checks False (Some ''rough_draft'')
              (text_only 1 ''Ann'' ''The quick brown fox jumps high. The quick brown fox jumps high. The quick brown fox jumps high. The quick brown fox jumps high. The quick brown fox jumps high.'') [] = Inr fl
          \<and> Repetitive_reasoning \<in> set fl)"
proof -
  have g: "sizes_and_users_given (text_only 1 ''Ann'' ''The quick brown fox jumps high. The quick brown fox jumps high. The quick brown fox jumps high. The quick brown fox jumps high. The quick brown fox jumps high.'') []"
    by (rule text_only_given) simp
  show ?thesis
    using repetitive_reasoning_check [where tc = plain_text_checks and v = False
        and cp = "Some ''rough_draft''" and subs = "[]"
        and sub = "text_only 1 ''Ann'' ''The quick brown fox jumps high. The quick brown fox jumps high. The quick brown fox jumps high. The quick brown fox jumps high. The quick brown fox jumps high.''",
        OF plain_authors_matched g]
    unfolding text_only_fields using ex_repetitive
    by (auto simp: plain_authors_matched g text_only_fields)
qed

text \<open>
  C7. Under a profile that inverts \<^verbatim>\<open>complete_sentences\<close>, for a body with more than 50
  words whose ratio of complete sentences exceeds the profile's threshold, the analysis
  returns the flag "Too polished for notes" with that ratio and no "Suspiciously
  polished" flag. The records are those in which no size of an attachment and no user of
  a sibling is \<^verbatim>\<open>None\<close>.
\<close>

theorem too_polished_for_notes:
  assumes "is_inverted cp ''complete_sentences''"
    and "check_sentence_completeness (body_text sub) = Inr completeness"
    and "completeness > real (get_threshold cp ''complete_sentence_percent'') / 100"
    and "count_words (body_text sub) > 50"
    and "authors_matched (citations tc (body_text sub))"
    and "sizes_and_users_given sub subs"
  shows "\<exists>fl. analyze_submission tc v cp sub subs = Inr fl
           \<and> Too_polished_for_notes completeness \<in> set fl
           \<and> (\<forall>r. Suspiciously_polished r \<notin> set fl)"
proof -
  obtain fl pf where fl: "analyze_submission tc v cp sub subs = Inr fl" and
    pf: "polish_check cp (body_text sub) = Inr pf" and
    f: "filter (\<lambda>x. step_of x = 13) fl = (if body_text sub = [] then [] else pf)"
    using analyze_submission_body_step [OF assms(5,6), of v cp] by metis
  from assms(4) have ne: "body_text sub \<noteq> []" by (auto simp: count_words_def)
  from pf assms(1-4) inverted_enabled [OF assms(1)]
  have pfv: "pf = [Too_polished_for_notes completeness]"
    by (simp add: polish_check_def Let_def)
  have mem: "x \<in> set fl \<longleftrightarrow> x \<in> set pf" if "step_of x = 13" for x
  proof -
    have "x \<in> set fl \<longleftrightarrow> x \<in> set (filter (\<lambda>y. step_of y = 13) fl)"
      using that by simp
    then show ?thesis unfolding f using ne by simp
  qed
  have "Too_polished_for_notes completeness \<in> set fl"
    using mem [of "Too_polished_for_notes completeness"] pfv by simp
  moreover have "\<forall>r. Suspiciously_polished r \<notin> set fl"
    using mem pfv by simp
  ultimately show ?thesis using fl by blast
qed

theorem too_polished_for_notes_witness:
  "is_inverted (Some ''notes_brainstorm'') ''complete_sentences''
   \<and> check_sentence_completeness (body_text (text_only 1 ''Ann'' ''Aa b c d e f g h. Aa b c d e f g h. Aa b c d e f g h. Aa b c d e f g h. Aa b c d e f g h. Aa b c d e f g h. Aa b c d e f g h.'')) = Inr 1
   \<and> 1 > real (get_threshold (Some ''notes_brainstorm'') ''complete_sentence_percent'') / 100
   \<and> count_words (body_text (text_only 1 ''Ann'' ''Aa b c d e f g h. Aa b c d e f g h. Aa b c d e f g h. Aa b c d e f g h. Aa b c d e f g h. Aa b c d e f g h. Aa b c d e f g h.'')) > 50
   \<and> sizes_and_users_given (text_only 1 ''Ann'' ''Aa b c d e f g h. Aa b c d e f g h. Aa b c d e f g h. Aa b c d e f g h. Aa b c d e f g h. Aa b c d e f g h. Aa b c d e f g h.'') []
   \<and> (\<exists>fl. analyze_submission plain_text_checks False (Some ''notes_brainstorm'')
              (text_only 1 ''Ann'' ''Aa b c d e f g h. Aa b c d e f g h. Aa b c d e f g h. Aa b c d e f g h. Aa b c d e f g h. Aa b c d e f g h. Aa b c d e f g h.'') [] = Inr fl
          \<and> Too_polished_for_notes 1 \<in> set fl
          \<and> (\<forall>r. Suspiciously_polished r \<notin> set fl))"
proof -
  have b: "body_text (text_only 1 ''Ann'' ''Aa b c d e f g h. Aa b c d e f g h. Aa b c d e f g h. Aa b c d e f g h. Aa b c d e f g h. Aa b c d e f g h. Aa b c d e f g h.'') = ''Aa b c d e f g h. Aa b c d e f g h. Aa b c d e f g h. Aa b c d e f g h. Aa b c d e f g h. Aa b c d e f g h. Aa b c d e f g h.''"
    by (rule text_only_fields)
  have h1: "is_inverted (Some ''notes_brainstorm'') ''complete_sentences''"
    by (rule ex_notes_inverted)
  have h2: "check_sentence_completeness (body_text (text_only 1 ''Ann'' ''Aa b c d e f g h. Aa b c d e f g h. Aa b c d e f g h. Aa b c d e f g h. Aa b c d e f g h. Aa b c d e f g h. Aa b c d e f g h.'')) = Inr 1"
    unfolding b by (rule ex_completeness)
  have h3: "1 > real (get_threshold (Some ''notes_brainstorm'') ''complete_sentence_percent'') / 100"
    by (simp add: ex_notes_threshold)
  have h4: "count_words (body_text (text_only 1 ''Ann'' ''Aa b c d e f g h. Aa b c d e f g h. Aa b c d e f g h. Aa b c d e f g h. Aa b c d e f g h. Aa b c d e f g h. Aa b c d e f g h.'')) > 50"
    unfolding b by (simp add: ex_word_count)
  have h5: "sizes_and_users_given (text_only 1 ''Ann'' ''Aa b c d e f g h. Aa b c d e f g h. Aa b c d e f g h. Aa b c d e f g h. Aa b c d e f g h. Aa b c d e f g h. Aa b c d e f g h.'') []"
    by (rule text_only_given) simp
  from too_polished_for_notes [where tc = plain_text_checks and v = False and subs = "[]",
      OF h1 h2 h3 h4 plain_authors_matched h5] h1 h2 h3 h4 h5
  show ?thesis by blast
qed

text \<open>
  C8. The analysis of a submission raises on a record with absent body and URL whose one
  attachment has a file name and the size \<^verbatim>\<open>None\<close>: \<^verbatim>\<open>file.get("size", 0)\<close> is \<^verbatim>\<open>None\<close> and
  the comparison \<^verbatim>\<open>file_size > 0\<close> of line 2081 raises \<^verbatim>\<open>TypeError\<close>, whatever the profile,
  the siblings and the checks on the text are.
\<close>

theorem analyze_submission_raises_on_null_size:
  "analyze_submission tc v cp
     \<lparr>user_id = Some 7, body = None,
      attachments = Some [\<lparr>att_size = Null, att_filename = Present ''essay.pdf''\<rparr>],
      url = None, user = Absent\<rparr> subs
   = Inl TypeError"
  by (simp add: analyze_submission_def attachment_checks_def file_flags_def)



section \<open>Properties of the bibliographic markers\<close>

text \<open>
  C3, as the code has it. On a non-empty text whose citations all have an author with a
  first word, \<^verbatim>\<open>check_bibliographic_markers\<close> returns a clustered-in-one-year flag exactly
  when some year occurs in at least 3 of the detected citations and in more than 40
  percent of them.
\<close>

theorem clustered_year_flag:
  assumes "text \<noteq> []"
    and "surname_citations (apa_parenthetical found @ apa_narrative found) = Inr all_citations"
  shows "\<exists>fl. check_bibliographic_markers found text verify = Inr fl
           \<and> ((\<exists>y n. Clustered_in_year y n \<in> set fl) \<longleftrightarrow>
                (\<exists>y. 3 \<le> count_list (map snd all_citations) y
                     \<and> real (count_list (map snd all_citations) y)
                         / real (length all_citations) > 4 / 10))"
  using assms citation_pattern_flags_clustered [of all_citations]
    verification_flags_not_clustered
  by (auto simp: check_bibliographic_markers_def Let_def)

theorem clustered_year_flag_witness:
  "''See Smith (2019).'' \<noteq> []
   \<and> surname_citations
        (apa_parenthetical
           \<lparr>vague_count = 0,
            apa_parenthetical = [(''Smith'', ''2019''), (''Lee and Park'', ''2019''),
                                 (''Diaz'', ''2019''), (''Okoye'', ''2021'')],
            apa_narrative = [], has_references_section = True, not_found = []\<rparr>
         @ apa_narrative
           \<lparr>vague_count = 0,
            apa_parenthetical = [(''Smith'', ''2019''), (''Lee and Park'', ''2019''),
                                 (''Diaz'', ''2019''), (''Okoye'', ''2021'')],
            apa_narrative = [], has_references_section = True, not_found = []\<rparr>)
      = Inr [(''Smith'', ''2019''), (''Lee'', ''2019''), (''Diaz'', ''2019''), (''Okoye'', ''2021'')]
   \<and> (\<exists>fl. check_bibliographic_markers
              \<lparr>vague_count = 0,
               apa_parenthetical = [(''Smith'', ''2019''), (''Lee and Park'', ''2019''),
                                    (''Diaz'', ''2019''), (''Okoye'', ''2021'')],
               apa_narrative = [], has_references_section = True, not_found = []\<rparr>
              ''See Smith (2019).'' False = Inr fl
          \<and> (\<exists>y n. Clustered_in_year y n \<in> set fl))"
proof -
  have h1: "''See Smith (2019).'' \<noteq> []" by simp
  have h2: "surname_citations
        (apa_parenthetical
           \<lparr>vague_count = 0,
            apa_parenthetical = [(''Smith'', ''2019''), (''Lee and Park'', ''2019''),
                                 (''Diaz'', ''2019''), (''Okoye'', ''2021'')],
            apa_narrative = [], has_references_section = True, not_found = []\<rparr>
         @ apa_narrative
           \<lparr>vague_count = 0,
            apa_parenthetical = [(''Smith'', ''2019''), (''Lee and Park'', ''2019''),
                                 (''Diaz'', ''2019''), (''Okoye'', ''2021'')],
            apa_narrative = [], has_references_section = True, not_found = []\<rparr>)
      = Inr [(''Smith'', ''2019''), (''Lee'', ''2019''), (''Diaz'', ''2019''), (''Okoye'', ''2021'')]"
    by code_simp
  have h3: "\<exists>y. 3 \<le> count_list (map snd [(''Smith'', ''2019''), (''Lee'', ''2019''),
                                           (''Diaz'', ''2019''), (''Okoye'', ''2021'')]) y
              \<and> real (count_list (map snd [(''Smith'', ''2019''), (''Lee'', ''2019''),
                                             (''Diaz'', ''2019''), (''Okoye'', ''2021'')]) y)
                  / real (length [(''Smith'', ''2019''), (''Lee'', ''2019''),
                                  (''Diaz'', ''2019''), (''Okoye'', ''2021'')]) > 4 / 10"
    by (rule exI [of _ "''2019''"]) simp
  from clustered_year_flag [where verify = False, OF h1 h2] h1 h2 h3 show ?thesis by blast
qed

text \<open>
  C3, as the specification has it, fails: two citations of the same year are all of the
  citations, more than 40 percent, and no flag is returned.
\<close>

theorem clustered_year_flag_counterexample:
  "real (count_list (map snd [(''Smith'', ''2019''), (''Lee'', ''2019'')]) ''2019'')
     / real (length [(''Smith'', ''2019''), (''Lee'', ''2019'')]) > 4 / 10
   \<and> check_bibliographic_markers
        \<lparr>vague_count = 0,
         apa_parenthetical = [(''Smith'', ''2019''), (''Lee'', ''2019'')],
         apa_narrative = [], has_references_section = False, not_found = []\<rparr>
        ''As shown (Smith, 2019) and again (Lee, 2019).'' False = Inr []"
  by code_simp

section \<open>Properties of the self-plagiarism check\<close>

lemma map_of_dict_set: "map_of (dict_set k v m) = (map_of m)(k \<mapsto> v)"
  by (induction m) auto

lemma set_dict_set: "set (dict_set k v m) \<subseteq> insert (k, v) (set m)"
  by (induction m) (auto split: if_splits)

lemma keys_dict_set: "fst ` set (dict_set k v m) = insert k (fst ` set m)"
proof (induction m)
  case Nil
  show ?case by simp
next
  case (Cons kv m)
  obtain k' v' where kv: "kv = (k', v')" by (cases kv)
  show ?case
  proof (cases "k' = k")
    case True
    with kv show ?thesis by simp
  next
    case False
    with kv Cons show ?thesis by (simp add: insert_commute)
  qed
qed

lemma distinct_dict_set: "distinct (map fst m) \<Longrightarrow> distinct (map fst (dict_set k v m))"
proof (induction m)
  case Nil
  show ?case by simp
next
  case (Cons kv m)
  obtain k' v' where kv: "kv = (k', v')" by (cases kv)
  show ?case
  proof (cases "k' = k")
    case True
    with kv Cons.prems show ?thesis by simp
  next
    case False
    with kv Cons show ?thesis by (simp add: keys_dict_set)
  qed
qed

lemma stored_nil: "stored [] u a = None"
  by (simp add: stored_def)

lemma stored_add_submission:
  "stored (add_submission a u t S) u' a' =
     (if substantial t \<and> u' = u \<and> a' = a then Some t else stored S u' a')"
  by (auto simp: stored_def add_submission_def map_of_dict_set split: option.splits)

lemma stored_inner_fold:
  assumes "distinct (map fst txs)"
  shows "stored (fold (\<lambda>(u, t). add_submission a0 u t) txs S) u a =
         (if a = a0
          then (case map_of txs u of
                  Some t \<Rightarrow> if substantial t then Some t else stored S u a
                | None \<Rightarrow> stored S u a)
          else stored S u a)"
  using assms
proof (induction txs arbitrary: S)
  case Nil
  show ?case by simp
next
  case (Cons ut txs)
  obtain u1 t1 where ut: "ut = (u1, t1)" by (cases ut)
  from Cons.prems ut have d: "distinct (map fst txs)" and n: "u1 \<notin> fst ` set txs" by auto
  from n have none: "map_of txs u1 = None" by (simp add: map_of_eq_None_iff)
  show ?case
    unfolding ut fold_simps prod.case Cons.IH [OF d] stored_add_submission
    using none by (auto split: option.splits)
qed

lemma submitted_Cons:
  "submitted ((a0, d0) # rest) a u =
     (if a = a0 then map_of (submission_texts d0) u else submitted rest a u)"
  by (simp add: submitted_def)

lemma submitted_not_key: "a \<notin> fst ` set ads \<Longrightarrow> submitted ads a u = None"
  by (simp add: submitted_def map_of_eq_None_iff [THEN iffD2])

lemma stored_outer_fold:
  assumes "dictionaries ads"
  shows "stored (fold (\<lambda>(assignment_id, data) student_submissions.
                         fold (\<lambda>(uid, text). add_submission assignment_id uid text)
                              (submission_texts data) student_submissions) ads S) u a =
         (case submitted ads a u of
            Some t \<Rightarrow> if substantial t then Some t else stored S u a
          | None \<Rightarrow> stored S u a)"
  using assms
proof (induction ads arbitrary: S)
  case Nil
  show ?case by (simp add: submitted_def)
next
  case (Cons ad ads)
  obtain a0 d0 where ad: "ad = (a0, d0)" by (cases ad)
  from Cons.prems ad have rest: "dictionaries ads" and n: "a0 \<notin> fst ` set ads"
    and d: "distinct (map fst (submission_texts d0))"
    by (auto simp: dictionaries_def)
  show ?case
    unfolding ad fold_simps prod.case Cons.IH [OF rest] stored_inner_fold [OF d] submitted_Cons
    using submitted_not_key [OF n] by (auto split: option.splits)
qed

lemma stored_collect:
  assumes "dictionaries ads"
  shows "stored (collect_submissions ads) u a = Some t \<longleftrightarrow>
           submitted ads a u = Some t \<and> substantial t"
  unfolding collect_submissions_def stored_outer_fold [OF assms] stored_nil
  by (auto split: option.splits)

text \<open>\<^verbatim>\<open>student_submissions\<close> is a dictionary of dictionaries.\<close>

lemma keyed_add_submission:
  assumes "distinct (map fst S)" "\<forall>(u, inner)\<in>set S. distinct (map fst inner)"
  shows "distinct (map fst (add_submission a u t S))
         \<and> (\<forall>(u, inner)\<in>set (add_submission a u t S). distinct (map fst inner))"
proof (cases "substantial t")
  case False
  with assms show ?thesis by (simp add: add_submission_def)
next
  case True
  define old where "old = (case map_of S u of Some d \<Rightarrow> d | None \<Rightarrow> [])"
  have "distinct (map fst old)"
  proof (cases "map_of S u")
    case None
    then show ?thesis by (simp add: old_def)
  next
    case (Some d)
    then have "(u, d) \<in> set S" by (rule map_of_SomeD)
    with assms(2) Some show ?thesis by (auto simp: old_def)
  qed
  then have new: "distinct (map fst (dict_set a t old))" by (rule distinct_dict_set)
  have eq: "add_submission a u t S = dict_set u (dict_set a t old) S"
    using True by (simp add: add_submission_def old_def)
  have "\<forall>(u', inner)\<in>set (dict_set u (dict_set a t old) S). distinct (map fst inner)"
    using set_dict_set [of u "dict_set a t old" S] assms(2) new by auto
  with distinct_dict_set [OF assms(1)] show ?thesis unfolding eq by blast
qed

lemma keyed_inner_fold:
  assumes "distinct (map fst S)" "\<forall>(u, inner)\<in>set S. distinct (map fst inner)"
  shows "distinct (map fst (fold (\<lambda>(u, t). add_submission a u t) txs S))
         \<and> (\<forall>(u, inner)\<in>set (fold (\<lambda>(u, t). add_submission a u t) txs S). distinct (map fst inner))"
  using assms
proof (induction txs arbitrary: S)
  case Nil
  then show ?case by simp
next
  case (Cons ut txs)
  obtain u1 t1 where ut: "ut = (u1, t1)" by (cases ut)
  from keyed_add_submission [OF Cons.prems, of a u1 t1]
  have "distinct (map fst (add_submission a u1 t1 S))"
    "\<forall>(u, inner)\<in>set (add_submission a u1 t1 S). distinct (map fst inner)" by blast+
  from Cons.IH [OF this] show ?case unfolding ut by simp
qed

lemma keyed_outer_fold:
  assumes "distinct (map fst S)" "\<forall>(u, inner)\<in>set S. distinct (map fst inner)"
  shows "distinct (map fst (fold (\<lambda>(assignment_id, data) student_submissions.
                         fold (\<lambda>(uid, text). add_submission assignment_id uid text)
                              (submission_texts data) student_submissions) ads S))
         \<and> (\<forall>(u, inner)\<in>set (fold (\<lambda>(assignment_id, data) student_submissions.
                         fold (\<lambda>(uid, text). add_submission assignment_id uid text)
                              (submission_texts data) student_submissions) ads S).
               distinct (map fst inner))"
  using assms
proof (induction ads arbitrary: S)
  case Nil
  then show ?case by simp
next
  case (Cons ad ads)
  obtain a0 d0 where ad: "ad = (a0, d0)" by (cases ad)
  from keyed_inner_fold [OF Cons.prems, of a0 "submission_texts d0"]
  have "distinct (map fst (fold (\<lambda>(u, t). add_submission a0 u t) (submission_texts d0) S))"
    "\<forall>(u, inner)\<in>set (fold (\<lambda>(u, t). add_submission a0 u t) (submission_texts d0) S).
        distinct (map fst inner)" by blast+
  from Cons.IH [OF this] show ?case unfolding ad by simp
qed

lemma keyed_collect:
  "distinct (map fst (collect_submissions ads))
   \<and> (\<forall>(u, inner)\<in>set (collect_submissions ads). distinct (map fst inner))"
  unfolding collect_submissions_def by (rule keyed_outer_fold) simp_all

lemma pairs_with_result:
  assumes "aid1 \<in> dom (map_of ads)" "\<forall>(a, t)\<in>set rest. a \<in> dom (map_of ads)"
  shows "\<exists>ps. pairs_with ads aid1 text1 rest = Inr ps
           \<and> (ps \<noteq> [] \<longleftrightarrow> (\<exists>(a2, t2)\<in>set rest. calculate_text_similarity text1 t2 \<ge> 7 / 10))"
  using assms(2)
proof (induction rest)
  case Nil
  show ?case by simp
next
  case (Cons entry rest)
  obtain a2 t2 where entry: "entry = (a2, t2)" by (cases entry)
  from Cons.prems entry have k2: "a2 \<in> dom (map_of ads)"
    and r: "\<forall>(a, t)\<in>set rest. a \<in> dom (map_of ads)" by auto
  from Cons.IH [OF r] obtain ps where ps: "pairs_with ads aid1 text1 rest = Inr ps"
    "ps \<noteq> [] \<longleftrightarrow> (\<exists>(a2, t2)\<in>set rest. calculate_text_similarity text1 t2 \<ge> 7 / 10)"
    by blast
  from assms(1) obtain d1 where d1: "map_of ads aid1 = Some d1" by blast
  from k2 obtain d2 where d2: "map_of ads a2 = Some d2" by blast
  show ?case unfolding entry using ps d1 d2 by auto
qed

lemma student_pairs_result:
  assumes "distinct (map fst inner)" "\<forall>(a, t)\<in>set inner. a \<in> dom (map_of ads)"
  shows "\<exists>qs. student_pairs ads inner = Inr qs
           \<and> (qs \<noteq> [] \<longleftrightarrow>
                (\<exists>a1 t1 a2 t2. (a1, t1) \<in> set inner \<and> (a2, t2) \<in> set inner \<and> a1 \<noteq> a2
                   \<and> calculate_text_similarity t1 t2 \<ge> 7 / 10))"
  using assms
proof (induction inner)
  case Nil
  show ?case by simp
next
  case (Cons entry rest)
  obtain a t where entry: "entry = (a, t)" by (cases entry)
  from Cons.prems entry have d: "distinct (map fst rest)" and n: "a \<notin> fst ` set rest"
    and k: "a \<in> dom (map_of ads)" and r: "\<forall>(a, t)\<in>set rest. a \<in> dom (map_of ads)"
    by auto
  from pairs_with_result [OF k r, of t] obtain ps where ps: "pairs_with ads a t rest = Inr ps"
    "ps \<noteq> [] \<longleftrightarrow> (\<exists>(a2, t2)\<in>set rest. calculate_text_similarity t t2 \<ge> 7 / 10)"
    by blast
  from Cons.IH [OF d r] obtain qs where qs: "student_pairs ads rest = Inr qs"
    "qs \<noteq> [] \<longleftrightarrow>
       (\<exists>a1 t1 a2 t2. (a1, t1) \<in> set rest \<and> (a2, t2) \<in> set rest \<and> a1 \<noteq> a2
          \<and> calculate_text_similarity t1 t2 \<ge> 7 / 10)"
    by blast
  have res: "student_pairs ads (entry # rest) = Inr (ps @ qs)"
    unfolding entry using ps(1) qs(1) by simp
  have "ps @ qs \<noteq> [] \<longleftrightarrow>
          (\<exists>a1 t1 a2 t2. (a1, t1) \<in> set (entry # rest) \<and> (a2, t2) \<in> set (entry # rest) \<and> a1 \<noteq> a2
             \<and> calculate_text_similarity t1 t2 \<ge> 7 / 10)" (is "?L \<longleftrightarrow> ?R")
  proof
    assume ?L
    then consider "ps \<noteq> []" | "qs \<noteq> []" by auto
    then show ?R
    proof cases
      case 1
      with ps(2) obtain a2 t2 where m: "(a2, t2) \<in> set rest"
        "calculate_text_similarity t t2 \<ge> 7 / 10" by auto
      with n have "a \<noteq> a2" by force
      with m show ?thesis unfolding entry by auto
    next
      case 2
      with qs(2) show ?thesis by auto
    qed
  next
    assume ?R
    then obtain a1 t1 a2 t2 where m: "(a1, t1) \<in> set (entry # rest)" "(a2, t2) \<in> set (entry # rest)"
      "a1 \<noteq> a2" "calculate_text_similarity t1 t2 \<ge> 7 / 10" by blast
    show ?L
    proof (cases "(a1, t1) = entry")
      case True
      with m entry have "(a2, t2) \<in> set rest" by auto
      with m(4) True entry ps(2) show ?thesis by auto
    next
      case f1: False
      show ?thesis
      proof (cases "(a2, t2) = entry")
        case True
        with m entry f1 have "(a1, t1) \<in> set rest" by auto
        moreover from m(4) True entry have "calculate_text_similarity t t1 \<ge> 7 / 10"
          by (simp add: similarity_commute)
        ultimately show ?thesis using ps(2) by auto
      next
        case False
        with f1 m have "(a1, t1) \<in> set rest" "(a2, t2) \<in> set rest" by auto
        with m(3,4) qs(2) show ?thesis by auto
      qed
    qed
  qed
  with res show ?case by blast
qed

lemma self_plagiarism_of_keys:
  assumes "\<forall>(u, inner)\<in>set S. \<exists>qs. student_pairs ads inner = Inr qs \<and> (qs \<noteq> [] \<longleftrightarrow> P inner)"
  shows "\<exists>res. self_plagiarism_of ads S = Inr res
           \<and> fst ` set res = {u. \<exists>inner. (u, inner) \<in> set S \<and> P inner}"
  using assms
proof (induction S)
  case Nil
  show ?case by simp
next
  case (Cons ui S)
  obtain u inner where ui: "ui = (u, inner)" by (cases ui)
  from Cons.prems ui obtain qs where qs: "student_pairs ads inner = Inr qs"
    "qs \<noteq> [] \<longleftrightarrow> P inner" by auto
  from Cons.prems have
    "\<forall>(u, inner)\<in>set S. \<exists>qs. student_pairs ads inner = Inr qs \<and> (qs \<noteq> [] \<longleftrightarrow> P inner)"
    by simp
  from Cons.IH [OF this] obtain res where res: "self_plagiarism_of ads S = Inr res"
    "fst ` set res = {u. \<exists>inner. (u, inner) \<in> set S \<and> P inner}" by blast
  show ?case
  proof (cases "qs = []")
    case True
    with qs res have "self_plagiarism_of ads (ui # S) = Inr res" unfolding ui by simp
    moreover have "fst ` set res = {u. \<exists>inner. (u, inner) \<in> set (ui # S) \<and> P inner}"
      unfolding res(2) ui using True qs(2) by auto
    ultimately show ?thesis by blast
  next
    case False
    with qs res have "self_plagiarism_of ads (ui # S) = Inr ((u, qs) # res)" unfolding ui by simp
    moreover have "fst ` set ((u, qs) # res) = {u. \<exists>inner. (u, inner) \<in> set (ui # S) \<and> P inner}"
      using False qs(2) unfolding ui by (auto simp: res(2))
    ultimately show ?thesis by blast
  qed
qed

lemma self_plagiarism_of_result:
  assumes "\<forall>(u, inner)\<in>set S. distinct (map fst inner)
                               \<and> (\<forall>(a, t)\<in>set inner. a \<in> dom (map_of ads))"
  shows "\<exists>res. self_plagiarism_of ads S = Inr res
           \<and> fst ` set res =
               {u. \<exists>inner. (u, inner) \<in> set S
                    \<and> (\<exists>a1 t1 a2 t2. (a1, t1) \<in> set inner \<and> (a2, t2) \<in> set inner \<and> a1 \<noteq> a2
                          \<and> calculate_text_similarity t1 t2 \<ge> 7 / 10)}"
proof (rule self_plagiarism_of_keys)
  show "\<forall>(u, inner)\<in>set S.
          \<exists>qs. student_pairs ads inner = Inr qs
            \<and> (qs \<noteq> [] \<longleftrightarrow>
                 (\<exists>a1 t1 a2 t2. (a1, t1) \<in> set inner \<and> (a2, t2) \<in> set inner \<and> a1 \<noteq> a2
                    \<and> calculate_text_similarity t1 t2 \<ge> 7 / 10))"
  proof (clarify)
    fix u inner assume "(u, inner) \<in> set S"
    with assms have "distinct (map fst inner)" "\<forall>(a, t)\<in>set inner. a \<in> dom (map_of ads)"
      by auto
    then show "\<exists>qs. student_pairs ads inner = Inr qs
            \<and> (qs \<noteq> [] \<longleftrightarrow>
                 (\<exists>a1 t1 a2 t2. (a1, t1) \<in> set inner \<and> (a2, t2) \<in> set inner \<and> a1 \<noteq> a2
                    \<and> calculate_text_similarity t1 t2 \<ge> 7 / 10))"
      by (rule student_pairs_result)
  qed
qed

lemma substantial_count_words: "substantial t \<longleftrightarrow> count_words t > 50"
  by (auto simp: substantial_def count_words_def)

lemma collect_member:
  assumes "dictionaries ads" "(u, inner) \<in> set (collect_submissions ads)"
  shows "(a, t) \<in> set inner \<longleftrightarrow> submitted ads a u = Some t \<and> substantial t"
proof -
  from keyed_collect [of ads] assms(2)
  have du: "distinct (map fst (collect_submissions ads))" and di: "distinct (map fst inner)"
    by auto
  from du assms(2) have "map_of (collect_submissions ads) u = Some inner" by simp
  then have "stored (collect_submissions ads) u a = map_of inner a"
    by (simp add: stored_def)
  with stored_collect [OF assms(1), of u a t] di show ?thesis by simp
qed

lemma collect_exists:
  assumes "dictionaries ads" "submitted ads a u = Some t" "substantial t"
  shows "\<exists>inner. (u, inner) \<in> set (collect_submissions ads)"
proof -
  from stored_collect [OF assms(1), of u a t] assms(2,3)
  have "stored (collect_submissions ads) u a = Some t" by simp
  then obtain inner where "map_of (collect_submissions ads) u = Some inner"
    by (auto simp: stored_def split: option.splits)
  then show ?thesis by (blast dest: map_of_SomeD)
qed

lemma submitted_key: "submitted ads a u = Some t \<Longrightarrow> a \<in> dom (map_of ads)"
  by (auto simp: submitted_def split: option.splits)

text \<open>
  C5. When \<^verbatim>\<open>all_data\<close> and its \<^verbatim>\<open>submission_texts\<close> are dictionaries, the self-plagiarism
  check returns a map, and a student is a key of the map exactly when the student
  submitted to two different assignments texts of more than 50 words each whose
  similarity is at least 0.70. A text of 50 words or fewer never counts.
\<close>

theorem self_plagiarism_members:
  assumes "dictionaries all_data"
  shows "\<exists>result. check_self_plagiarism all_data = Inr result
           \<and> (\<forall>uid. uid \<in> fst ` set result \<longleftrightarrow>
                 (\<exists>aid1 aid2 text1 text2.
                     aid1 \<noteq> aid2
                     \<and> submitted all_data aid1 uid = Some text1
                     \<and> submitted all_data aid2 uid = Some text2
                     \<and> count_words text1 > 50 \<and> count_words text2 > 50
                     \<and> calculate_text_similarity text1 text2 \<ge> 7 / 10))"
proof -
  have pre: "\<forall>(u, inner)\<in>set (collect_submissions all_data).
               distinct (map fst inner) \<and> (\<forall>(a, t)\<in>set inner. a \<in> dom (map_of all_data))"
    using keyed_collect [of all_data] collect_member [OF assms] submitted_key
    by fastforce
  from self_plagiarism_of_result [OF pre] obtain result where
    r: "check_self_plagiarism all_data = Inr result" and
    k: "fst ` set result =
          {u. \<exists>inner. (u, inner) \<in> set (collect_submissions all_data)
               \<and> (\<exists>a1 t1 a2 t2. (a1, t1) \<in> set inner \<and> (a2, t2) \<in> set inner \<and> a1 \<noteq> a2
                     \<and> calculate_text_similarity t1 t2 \<ge> 7 / 10)}"
    unfolding check_self_plagiarism_def by blast
  have "uid \<in> fst ` set result \<longleftrightarrow>
          (\<exists>aid1 aid2 text1 text2.
              aid1 \<noteq> aid2
              \<and> submitted all_data aid1 uid = Some text1
              \<and> submitted all_data aid2 uid = Some text2
              \<and> count_words text1 > 50 \<and> count_words text2 > 50
              \<and> calculate_text_similarity text1 text2 \<ge> 7 / 10)" (is "?L \<longleftrightarrow> ?R") for uid
  proof
    assume ?L
    with k obtain inner a1 t1 a2 t2 where m: "(uid, inner) \<in> set (collect_submissions all_data)"
      "(a1, t1) \<in> set inner" "(a2, t2) \<in> set inner" "a1 \<noteq> a2"
      "calculate_text_similarity t1 t2 \<ge> 7 / 10" by auto
    from collect_member [OF assms m(1)] m(2,3)
    have "submitted all_data a1 uid = Some t1" "substantial t1"
      "submitted all_data a2 uid = Some t2" "substantial t2" by auto
    with m(4,5) show ?R by (auto simp: substantial_count_words)
  next
    assume ?R
    then obtain a1 a2 t1 t2 where m: "a1 \<noteq> a2" "submitted all_data a1 uid = Some t1"
      "submitted all_data a2 uid = Some t2" "substantial t1" "substantial t2"
      "calculate_text_similarity t1 t2 \<ge> 7 / 10"
      by (auto simp: substantial_count_words)
    from collect_exists [OF assms m(2,4)] obtain inner where
      i: "(uid, inner) \<in> set (collect_submissions all_data)" by blast
    from collect_member [OF assms i] m(2-5)
    have "(a1, t1) \<in> set inner" "(a2, t2) \<in> set inner" by auto
    with i m(1,6) k show ?L by blast
  qed
  with r show ?thesis by blast
qed

lemma ex_dictionaries:
  "dictionaries
     [(1, \<lparr>assignment_name = ''Essay 1'', submission_texts = [(7, ''w w w w w w w w w w w w w w w w w w w w w w w w w w w w w w w w w w w w w w w w w w w w w w w w w w w'')]\<rparr>),
      (2, \<lparr>assignment_name = ''Essay 2'', submission_texts = [(7, ''W w w w w w w w w w w w w w w w w w w w w w w w w w w w w w w w w w w w w w w w w w w w w w w w w w w'')]\<rparr>)]"
  by code_simp

lemma ex_submitted:
  "submitted
     [(1, \<lparr>assignment_name = ''Essay 1'', submission_texts = [(7, ''w w w w w w w w w w w w w w w w w w w w w w w w w w w w w w w w w w w w w w w w w w w w w w w w w w w'')]\<rparr>),
      (2, \<lparr>assignment_name = ''Essay 2'', submission_texts = [(7, ''W w w w w w w w w w w w w w w w w w w w w w w w w w w w w w w w w w w w w w w w w w w w w w w w w w w'')]\<rparr>)] 1 7 = Some ''w w w w w w w w w w w w w w w w w w w w w w w w w w w w w w w w w w w w w w w w w w w w w w w w w w w''"
  "submitted
     [(1, \<lparr>assignment_name = ''Essay 1'', submission_texts = [(7, ''w w w w w w w w w w w w w w w w w w w w w w w w w w w w w w w w w w w w w w w w w w w w w w w w w w w'')]\<rparr>),
      (2, \<lparr>assignment_name = ''Essay 2'', submission_texts = [(7, ''W w w w w w w w w w w w w w w w w w w w w w w w w w w w w w w w w w w w w w w w w w w w w w w w w w w'')]\<rparr>)] 2 7 = Some ''W w w w w w w w w w w w w w w w w w w w w w w w w w w w w w w w w w w w w w w w w w w w w w w w w w w''"
  by code_simp+

lemma ex_long_texts:
  "count_words ''w w w w w w w w w w w w w w w w w w w w w w w w w w w w w w w w w w w w w w w w w w w w w w w w w w w'' = 51"
  "count_words ''W w w w w w w w w w w w w w w w w w w w w w w w w w w w w w w w w w w w w w w w w w w w w w w w w w w'' = 51"
  "calculate_text_similarity ''w w w w w w w w w w w w w w w w w w w w w w w w w w w w w w w w w w w w w w w w w w w w w w w w w w w'' ''W w w w w w w w w w w w w w w w w w w w w w w w w w w w w w w w w w w w w w w w w w w w w w w w w w w'' = 1"
  by code_simp+

theorem self_plagiarism_members_witness:
  "dictionaries
     [(1, \<lparr>assignment_name = ''Essay 1'', submission_texts = [(7, ''w w w w w w w w w w w w w w w w w w w w w w w w w w w w w w w w w w w w w w w w w w w w w w w w w w w'')]\<rparr>),
      (2, \<lparr>assignment_name = ''Essay 2'', submission_texts = [(7, ''W w w w w w w w w w w w w w w w w w w w w w w w w w w w w w w w w w w w w w w w w w w w w w w w w w w'')]\<rparr>)]
   \<and> (\<exists>result. check_self_plagiarism
        [(1, \<lparr>assignment_name = ''Essay 1'', submission_texts = [(7, ''w w w w w w w w w w w w w w w w w w w w w w w w w w w w w w w w w w w w w w w w w w w w w w w w w w w'')]\<rparr>),
      (2, \<lparr>assignment_name = ''Essay 2'', submission_texts = [(7, ''W w w w w w w w w w w w w w w w w w w w w w w w w w w w w w w w w w w w w w w w w w w w w w w w w w w'')]\<rparr>)] = Inr result
        \<and> 7 \<in> fst ` set result)"
proof -
  have "\<exists>aid1 aid2 text1 text2.
          aid1 \<noteq> aid2
          \<and> submitted [(1, \<lparr>assignment_name = ''Essay 1'', submission_texts = [(7, ''w w w w w w w w w w w w w w w w w w w w w w w w w w w w w w w w w w w w w w w w w w w w w w w w w w w'')]\<rparr>),
      (2, \<lparr>assignment_name = ''Essay 2'', submission_texts = [(7, ''W w w w w w w w w w w w w w w w w w w w w w w w w w w w w w w w w w w w w w w w w w w w w w w w w w w'')]\<rparr>)] aid1 7 = Some text1
          \<and> submitted [(1, \<lparr>assignment_name = ''Essay 1'', submission_texts = [(7, ''w w w w w w w w w w w w w w w w w w w w w w w w w w w w w w w w w w w w w w w w w w w w w w w w w w w'')]\<rparr>),
      (2, \<lparr>assignment_name = ''Essay 2'', submission_texts = [(7, ''W w w w w w w w w w w w w w w w w w w w w w w w w w w w w w w w w w w w w w w w w w w w w w w w w w w'')]\<rparr>)] aid2 7 = Some text2
          \<and> count_words text1 > 50 \<and> count_words text2 > 50
          \<and> calculate_text_similarity text1 text2 \<ge> 7 / 10"
    apply (rule exI [of _ 1])
    apply (rule exI [of _ 2])
    apply (rule exI [of _ "''w w w w w w w w w w w w w w w w w w w w w w w w w w w w w w w w w w w w w w w w w w w w w w w w w w w''"])
    apply (rule exI [of _ "''W w w w w w w w w w w w w w w w w w w w w w w w w w w w w w w w w w w w w w w w w w w w w w w w w w w''"])
    apply (simp add: ex_submitted ex_long_texts)
    done
  with self_plagiarism_members [OF ex_dictionaries] ex_dictionaries show ?thesis by blast
qed

end
